theory Spec2Isabelle
  imports Complex_Main "HOL-Library.Monad_Syntax" "HOL-Library.Word" "HOL-Library.Option_ord"
    "HOL-Library.Char_ord" "HOL-Library.List_Lexorder"
begin

section \<open>JavaScript numbers met by the protobuf readers\<close>

text \<open>
  The readers of both workers keep positions, lengths and varint values in JavaScript
  Numbers (IEEE-754 doubles). Every value they compute is a non-negative integer or
  \<open>Infinity\<close>, so a Number is modelled as a natural number that is exactly representable
  as a double, or \<open>PosInf\<close>. A BigInt is a \<open>nat\<close>; a byte of the \<open>Uint8Array\<close> is an
  8-bit word.
\<close>

datatype num = Fin nat | PosInf

type_synonym byte = "8 word"

fun bitlen :: "nat \<Rightarrow> nat" where
  "bitlen n = (if n = 0 then 0 else Suc (bitlen (n div 2)))"

declare bitlen.simps [simp del]

text \<open>Round to nearest, ties to even, at 53 significant bits.\<close>

definition round53 :: "nat \<Rightarrow> nat" where
  "round53 n =
     (if n < 2 ^ 53 then n
      else let e = bitlen n - 53;
               q = n div 2 ^ e;
               r = n mod 2 ^ e;
               h = 2 ^ (e - 1)
           in (if h < r \<or> (r = h \<and> odd q) then q + 1 else q) * 2 ^ e)"

text \<open>\<open>Number(x)\<close> for a non-negative BigInt \<open>x\<close>; beyond the largest double it is \<open>Infinity\<close>.\<close>

definition Number :: "nat \<Rightarrow> num" where
  "Number n = (let m = round53 n in if m < 2 ^ 1024 then Fin m else PosInf)"

text \<open>\<open>a + b\<close> on Numbers: the exact sum, correctly rounded.\<close>

fun jsadd :: "num \<Rightarrow> num \<Rightarrow> num" where
  "jsadd (Fin a) (Fin b) = Number (a + b)"
| "jsadd _ _ = PosInf"

text \<open>\<open>a < b\<close> on Numbers.\<close>

fun jslt :: "num \<Rightarrow> num \<Rightarrow> bool" where
  "jslt (Fin a) (Fin b) = (a < b)"
| "jslt (Fin a) PosInf = True"
| "jslt PosInf _ = False"

text \<open>
  \<open>ToInt32\<close>, applied by \<open>>>\<close> and \<open>&\<close> to their left operand: the value modulo \<open>2^32\<close>,
  read as a signed 32-bit integer; \<open>Infinity\<close> becomes 0.
\<close>

definition toInt32 :: "num \<Rightarrow> int" where
  "toInt32 v = (case v of PosInf \<Rightarrow> 0
                | Fin n \<Rightarrow> (int n + 2 ^ 31) mod 2 ^ 32 - 2 ^ 31)"

text \<open>\<open>key >> 3\<close> (arithmetic shift) and \<open>key & 7\<close>.\<close>

definition fieldNo_of :: "num \<Rightarrow> int" where
  "fieldNo_of key = toInt32 key div 8"

definition wireType_of :: "num \<Rightarrow> int" where
  "wireType_of key = toInt32 key mod 8"

text \<open>
  \<open>u8[pos]\<close>: the byte at an index in range, \<open>undefined\<close> (\<open>None\<close>) anywhere else. A typed
  array has fewer than \<open>2^53\<close> elements, so no index from \<open>2^53\<close> on is ever in range.
\<close>

definition u8_at :: "byte list \<Rightarrow> num \<Rightarrow> byte option" where
  "u8_at u8 pos = (case pos of PosInf \<Rightarrow> None
                   | Fin n \<Rightarrow> if n < length u8 \<and> n < 2 ^ 53 then Some (u8 ! n) else None)"

text \<open>\<open>b & m\<close> for a byte or \<open>undefined\<close>: \<open>undefined\<close> is converted to 0.\<close>

definition band :: "byte option \<Rightarrow> byte \<Rightarrow> nat" where
  "band b m = (case b of None \<Rightarrow> 0 | Some w \<Rightarrow> unat (and w m))"

subsection \<open>Exact arithmetic below \<open>2^53\<close>, needed for the termination of the reader\<close>

lemma bitlen_less: "n < 2 ^ k \<Longrightarrow> bitlen n \<le> k"
proof (induction n arbitrary: k rule: bitlen.induct)
  case (1 n)
  show ?case
  proof (cases "n = 0")
    case True
    then show ?thesis by (simp add: bitlen.simps)
  next
    case False
    then obtain j where k: "k = Suc j" using "1.prems" by (cases k) auto
    with "1.prems" have "n div 2 < 2 ^ j" by auto
    with "1.IH" False have "bitlen (n div 2) \<le> j" by blast
    with False k show ?thesis by (subst bitlen.simps) simp
  qed
qed

lemma bitlen_ge: "2 ^ k \<le> n \<Longrightarrow> k < bitlen n"
proof (induction n arbitrary: k rule: bitlen.induct)
  case (1 n)
  have "0 < (2::nat) ^ k" by simp
  with "1.prems" have n0: "n \<noteq> 0" by linarith
  show ?case
  proof (cases k)
    case 0
    with n0 show ?thesis by (subst bitlen.simps) simp
  next
    case (Suc j)
    with "1.prems" have "2 ^ j \<le> n div 2" by auto
    with "1.IH" n0 have "j < bitlen (n div 2)" by blast
    with n0 Suc show ?thesis by (subst bitlen.simps) simp
  qed
qed

lemma round53_small: "n < 2 ^ 53 \<Longrightarrow> round53 n = n"
  by (simp add: round53_def)

lemma Number_small: "n < 2 ^ 53 \<Longrightarrow> Number n = Fin n"
proof -
  assume a: "n < 2 ^ 53"
  have "(2::nat) ^ 53 < 2 ^ 1024" by (rule power_strict_increasing) simp_all
  with a have "n < 2 ^ 1024" by linarith
  with a show ?thesis by (simp add: Number_def round53_small)
qed

lemma bitlen_pow2: "bitlen (2 ^ k) = Suc k"
proof -
  have "(2::nat) ^ k < 2 ^ Suc k" by simp
  then have "bitlen (2 ^ k) \<le> Suc k" by (rule bitlen_less)
  moreover have "k < bitlen (2 ^ k)" by (rule bitlen_ge) simp
  ultimately show ?thesis by linarith
qed

lemma round53_pow2_53: "round53 (2 ^ 53) = 2 ^ 53"
proof -
  have b: "bitlen (2 ^ 53) - 53 = 1" by (simp only: bitlen_pow2)
  have d: "(2::nat) ^ 53 div 2 = 2 ^ 52" by simp
  have m: "(2::nat) ^ 53 mod 2 = 0" by simp
  show ?thesis
    unfolding round53_def Let_def b using d m by simp
qed

lemma Number_pow2_53: "Number (2 ^ 53) = Fin (2 ^ 53)"
proof -
  have "(2::nat) ^ 53 < 2 ^ 1024" by (rule power_strict_increasing) simp_all
  then show ?thesis unfolding Number_def Let_def round53_pow2_53 by (rule if_P)
qed

lemma Number_le_pow2_53: "n \<le> 2 ^ 53 \<Longrightarrow> Number n = Fin n"
  using Number_small [of n] Number_pow2_53 by (cases "n = 2 ^ 53") auto

lemma jsadd_exact: "a + b \<le> 2 ^ 53 \<Longrightarrow> jsadd (Fin a) (Fin b) = Fin (a + b)"
  by (simp add: Number_le_pow2_53)

section \<open>The tiny protobuf reader of the ingestion worker\<close>

text \<open>
  \<open>readVarint(u8, i)\<close>: the loop carries the position, the BigInt accumulator \<open>x\<close> and the
  shift \<open>s\<close>. Reading past the end gives \<open>undefined\<close>, whose masks are 0, so the loop
  stops there without raising. The result is the pair \<open>(value, next)\<close>.
\<close>

function readVarint_loop :: "byte list \<Rightarrow> num \<Rightarrow> nat \<Rightarrow> nat \<Rightarrow> num \<times> num" where
  "readVarint_loop u8 pos x s =
     (let b = u8_at u8 pos;
          pos' = jsadd pos (Fin 1);
          x' = or x (push_bit s (band b 127))
      in if band b 128 = 0 then (Number x', pos')
         else readVarint_loop u8 pos' x' (s + 7))"
  by pat_completeness auto
termination
proof (relation "measure (\<lambda>(u8, pos, x, s). case pos of Fin n \<Rightarrow> 2 ^ 53 - n | PosInf \<Rightarrow> 0)")
  show "wf (measure (\<lambda>(u8, pos, x, s). case pos of Fin n \<Rightarrow> 2 ^ 53 - n | PosInf \<Rightarrow> 0))"
    by simp
next
  fix u8 :: "byte list" and pos :: num and x s :: nat and b pos' x'
  assume b: "b = u8_at u8 pos" and p: "pos' = jsadd pos (Fin 1)"
    and nz: "band b 128 \<noteq> 0"
  from nz b obtain n where n: "pos = Fin n" "n < 2 ^ 53"
    by (cases pos) (auto simp: band_def u8_at_def split: if_splits)
  then have "pos' = Fin (n + 1)" using p by (simp add: jsadd_exact del: jsadd.simps)
  with n show "((u8, pos', x', s + 7), (u8, pos, x, s))
      \<in> measure (\<lambda>(u8, pos, x, s). case pos of Fin n \<Rightarrow> 2 ^ 53 - n | PosInf \<Rightarrow> 0)"
    by simp
qed

declare readVarint_loop.simps [simp del]

definition readVarint :: "byte list \<Rightarrow> num \<Rightarrow> num \<times> num" where
  "readVarint u8 i = readVarint_loop u8 i 0 0"

definition skipField :: "byte list \<Rightarrow> num \<Rightarrow> int \<Rightarrow> num" where
  "skipField u8 pos wireType =
     (if wireType = 0 then snd (readVarint u8 pos)
      else if wireType = 1 then jsadd pos (Fin 8)
      else if wireType = 2 then (let (len, nxt) = readVarint u8 pos in jsadd nxt len)
      else if wireType = 5 then jsadd pos (Fin 4)
      else pos)"

text \<open>
  \<open>parseHeaderTimestamp(u8, start, end)\<close>: \<open>ts\<close> is \<open>null\<close> (\<open>None\<close>) until a field 3 of
  wire type 0 is met. The loop has no bound but \<open>end\<close>, so it is a partial function:
  \<open>None\<close> is a loop that never returns.
\<close>

partial_function (option) parseHeaderTimestamp_loop ::
  "byte list \<Rightarrow> num \<Rightarrow> num \<Rightarrow> num option \<Rightarrow> num option option" where
  "parseHeaderTimestamp_loop u8 end pos ts =
     (if jslt pos end then
        (let key = fst (readVarint u8 pos);
             nxt = snd (readVarint u8 pos);
             fieldNo = fieldNo_of key;
             wireType = wireType_of key
         in if fieldNo = 3 \<and> wireType = 0
            then parseHeaderTimestamp_loop u8 end (snd (readVarint u8 nxt))
                   (Some (fst (readVarint u8 nxt)))
            else parseHeaderTimestamp_loop u8 end (skipField u8 nxt wireType) ts)
      else Some ts)"

definition parseHeaderTimestamp :: "byte list \<Rightarrow> num \<Rightarrow> num \<Rightarrow> num option option" where
  "parseHeaderTimestamp u8 start end = parseHeaderTimestamp_loop u8 end start None"

text \<open>
  \<open>parseFeedMeta(ab)\<close>: the top-level loop over the \<open>FeedMessage\<close>, counting the
  length-delimited fields numbered 2 and reading the timestamp of the header (field 1).
  The result is \<open>(entityCount, headerTsSec)\<close>.
\<close>

partial_function (option) parseFeedMeta_loop ::
  "byte list \<Rightarrow> num \<Rightarrow> nat \<Rightarrow> num option \<Rightarrow> (nat \<times> num option) option" where
  "parseFeedMeta_loop u8 pos entityCount headerTsSec =
     (if jslt pos (Fin (length u8)) then
        (let key = fst (readVarint u8 pos);
             nxt = snd (readVarint u8 pos);
             fieldNo = fieldNo_of key;
             wireType = wireType_of key
         in if wireType = 2 then
              (let len = fst (readVarint u8 nxt);
                   next2 = snd (readVarint u8 nxt);
                   subStart = next2;
                   subEnd = jsadd next2 len
               in if fieldNo = 1 then
                    do { ts \<leftarrow> parseHeaderTimestamp u8 subStart subEnd;
                         parseFeedMeta_loop u8 subEnd entityCount
                           (if ts \<noteq> None then ts else headerTsSec) }
                  else if fieldNo = 2 then
                    parseFeedMeta_loop u8 subEnd (entityCount + 1) headerTsSec
                  else parseFeedMeta_loop u8 subEnd entityCount headerTsSec)
            else parseFeedMeta_loop u8 (skipField u8 nxt wireType) entityCount headerTsSec)
      else Some (entityCount, headerTsSec))"

definition parseFeedMeta :: "byte list \<Rightarrow> (nat \<times> num option) option" where
  "parseFeedMeta ab = parseFeedMeta_loop ab (Fin 0) 0 None"

section \<open>The wire format, for stating the claims about the decoder\<close>

text \<open>The base-128 encoding of a number, low group first, as protobuf writes a varint.\<close>

fun varint :: "nat \<Rightarrow> byte list" where
  "varint n = (if n < 128 then [word_of_nat n]
               else word_of_nat (n mod 128 + 128) # varint (n div 128))"

declare varint.simps [simp del]

text \<open>
  The records of the wire format, for stating what a valid stream is: a field number and a
  payload that fixes the wire type. For the wire types 3, 4, 6 and 7 the reader consumes
  the tag alone, so such a record is its tag.
\<close>

datatype payload =
    Varint nat
  | Fixed64 "byte list"
  | LenDelim "byte list"
  | Fixed32 "byte list"
  | TagOnly nat

fun wire_type :: "payload \<Rightarrow> nat" where
  "wire_type (Varint v) = 0"
| "wire_type (Fixed64 bs) = 1"
| "wire_type (LenDelim bs) = 2"
| "wire_type (Fixed32 bs) = 5"
| "wire_type (TagOnly w) = w"

fun encode_payload :: "payload \<Rightarrow> byte list" where
  "encode_payload (Varint v) = varint v"
| "encode_payload (Fixed64 bs) = bs"
| "encode_payload (LenDelim bs) = varint (length bs) @ bs"
| "encode_payload (Fixed32 bs) = bs"
| "encode_payload (TagOnly w) = []"

fun encode_field :: "nat \<times> payload \<Rightarrow> byte list" where
  "encode_field (fno, p) = varint (fno * 8 + wire_type p) @ encode_payload p"

definition encode_fields :: "(nat \<times> payload) list \<Rightarrow> byte list" where
  "encode_fields fs = concat (map encode_field fs)"

text \<open>A field number has 29 bits; the fixed payloads have 8 and 4 bytes.\<close>

fun valid_field :: "nat \<times> payload \<Rightarrow> bool" where
  "valid_field (fno, p) =
     (fno < 2 ^ 29 \<and>
      (case p of Fixed64 bs \<Rightarrow> length bs = 8 | Fixed32 bs \<Rightarrow> length bs = 4
       | TagOnly w \<Rightarrow> w = 3 \<or> w = 4 \<or> w = 6 \<or> w = 7 | _ \<Rightarrow> True))"

fun is_entity :: "nat \<times> payload \<Rightarrow> bool" where
  "is_entity (fno, LenDelim bs) = (fno = 2)"
| "is_entity (fno, _) = False"

text \<open>A Number is at least \<open>a\<close>: the order in which the positions of the loops advance.\<close>

definition num_ge :: "num \<Rightarrow> nat \<Rightarrow> bool" where
  "num_ge v a = (case v of PosInf \<Rightarrow> True | Fin r \<Rightarrow> a \<le> r)"

subsection \<open>A buffer on which decoding does not return\<close>

definition hang_input :: "byte list" where
  "hang_input = [10, 128, 128, 128, 128, 128, 128, 128, 128, 64]"

section \<open>Montreal time helpers\<close>

text \<open>
  A \<open>Date\<close> is an instant in milliseconds since the epoch, or the invalid date. The civil
  time of an instant in the zone \<open>America/Toronto\<close> comes from the time-zone database of
  the platform and is a parameter of the model.
\<close>

datatype jsdate = Date int | InvalidDate

record civil =
  year :: nat
  month :: nat
  day :: nat
  hour :: nat
  minute :: nat
  second :: nat

definition digit :: "nat \<Rightarrow> char" where
  "digit d = ''0123456789'' ! d"

fun show_nat :: "nat \<Rightarrow> string" where
  "show_nat n = (if n < 10 then [digit n] else show_nat (n div 10) @ [digit (n mod 10)])"

declare show_nat.simps [simp del]

text \<open>The \<open>'2-digit'\<close> style of \<open>toLocaleString\<close>.\<close>

definition two_digit :: "nat \<Rightarrow> string" where
  "two_digit n = (if n < 10 then CHR ''0'' # show_nat n else show_nat n)"

text \<open>
  \<open>d.toLocaleString('en-CA', {timeZone, year, month, day, hour, minute, second, hour12: false})\<close>:
  the locale \<open>en-CA\<close> writes \<open>YYYY-MM-DD, HH:MM:SS\<close>; an invalid date gives \<open>Invalid Date\<close>.
\<close>

definition toLocaleString_full :: "(int \<Rightarrow> civil) \<Rightarrow> jsdate \<Rightarrow> string" where
  "toLocaleString_full tz d = (case d of InvalidDate \<Rightarrow> ''Invalid Date''
     | Date t \<Rightarrow> (let c = tz t in
         show_nat (year c) @ ''-'' @ two_digit (month c) @ ''-'' @ two_digit (day c) @ '', '' @
         two_digit (hour c) @ '':'' @ two_digit (minute c) @ '':'' @ two_digit (second c)))"

definition toLocaleString_year :: "(int \<Rightarrow> civil) \<Rightarrow> jsdate \<Rightarrow> string" where
  "toLocaleString_year tz d = (case d of InvalidDate \<Rightarrow> ''Invalid Date''
     | Date t \<Rightarrow> show_nat (year (tz t)))"

definition toLocaleString_month :: "(int \<Rightarrow> civil) \<Rightarrow> jsdate \<Rightarrow> string" where
  "toLocaleString_month tz d = (case d of InvalidDate \<Rightarrow> ''Invalid Date''
     | Date t \<Rightarrow> two_digit (month (tz t)))"

definition toLocaleString_day :: "(int \<Rightarrow> civil) \<Rightarrow> jsdate \<Rightarrow> string" where
  "toLocaleString_day tz d = (case d of InvalidDate \<Rightarrow> ''Invalid Date''
     | Date t \<Rightarrow> two_digit (day (tz t)))"

text \<open>\<open>s.replace(c, r)\<close> with a string pattern or a regular expression without the \<open>g\<close> flag
  replaces the first match; with the \<open>g\<close> flag it replaces every match.\<close>

fun replace_first :: "char \<Rightarrow> string \<Rightarrow> string \<Rightarrow> string" where
  "replace_first c r [] = []"
| "replace_first c r (x # xs) = (if x = c then r @ xs else x # replace_first c r xs)"

fun replace_all :: "char \<Rightarrow> string \<Rightarrow> string \<Rightarrow> string" where
  "replace_all c r [] = []"
| "replace_all c r (x # xs) = (if x = c then r @ replace_all c r xs else x # replace_all c r xs)"

definition fmtYMD_Montreal :: "(int \<Rightarrow> civil) \<Rightarrow> jsdate \<Rightarrow> string" where
  "fmtYMD_Montreal tz d =
     (let y = toLocaleString_year tz d;
          m = toLocaleString_month tz d;
          day = toLocaleString_day tz d
      in y @ ''-'' @ m @ ''-'' @ day)"

definition fmtISO_Montreal :: "(int \<Rightarrow> civil) \<Rightarrow> jsdate \<Rightarrow> string" where
  "fmtISO_Montreal tz d =
     (let s = replace_first CHR '' '' ''T''
                (replace_all CHR ''/'' ''-''
                  (replace_first CHR '','' '''' (toLocaleString_full tz d)))
      in replace_all CHR '':'' ''-'' s)"

section \<open>Saving a snapshot\<close>

record raw_row =
  provider_key :: string
  feed_id :: int
  feed_ts :: "string option"
  ingested_at :: string
  hash_sha256 :: string
  entity_count :: "nat option"

record log_detail =
  r2_key :: string
  bytes :: nat
  detail_entity_count :: nat
  feed_ts_local :: "string option"

record log_row =
  log_ts :: string
  log_provider_key :: "string option"
  log_feed_id :: "int option"
  level :: string
  message :: string
  detail_json :: "log_detail option"

text \<open>
  The bindings of the worker: the two raw tables and the log table of the D1 database
  \<open>env.DB\<close>, and the bucket \<open>env.R2\<close>, a map from keys to blobs.
\<close>

record env =
  rt_trip_updates_raw :: "raw_row list"
  rt_vehicle_positions_raw :: "raw_row list"
  ingest_log :: "log_row list"
  R2 :: "string \<rightharpoonup> byte list"

text \<open>
  What the platform supplies at one call of \<open>saveRT\<close>: the instant read by \<open>new Date()\<close>,
  the civil time of \<open>America/Toronto\<close>, and the values of \<open>datetime('now','localtime')\<close>
  in the two inserts. The digest \<open>sha256Hex\<close> (SHA-256 of \<open>crypto.subtle\<close>, written in
  hexadecimal) is a parameter of its own, the same function at every call.
\<close>

record platform =
  now :: int
  toronto :: "int \<Rightarrow> civil"
  sql_now_insert :: string
  sql_now_log :: string

datatype save_result = Skipped | Saved string

definition table_of :: "string \<Rightarrow> env \<Rightarrow> raw_row list" where
  "table_of kind e =
     (if kind = ''gtfsrt_trip_updates'' then rt_trip_updates_raw e else rt_vehicle_positions_raw e)"

definition insert_raw :: "string \<Rightarrow> raw_row \<Rightarrow> env \<Rightarrow> env" where
  "insert_raw kind r e =
     (if kind = ''gtfsrt_trip_updates''
      then e\<lparr>rt_trip_updates_raw := rt_trip_updates_raw e @ [r]\<rparr>
      else e\<lparr>rt_vehicle_positions_raw := rt_vehicle_positions_raw e @ [r]\<rparr>)"

text \<open>\<open>SELECT 1 FROM table WHERE provider_key=?1 AND hash_sha256=?2\<close>, then \<open>.first()\<close>.\<close>

definition select_exists :: "raw_row list \<Rightarrow> string \<Rightarrow> string \<Rightarrow> bool" where
  "select_exists table pkey hash =
     (filter (\<lambda>r. provider_key r = pkey \<and> hash_sha256 r = hash) table \<noteq> [])"

definition log_entry :: "platform \<Rightarrow> env \<Rightarrow> string \<Rightarrow> string \<Rightarrow> string option \<Rightarrow> int option
    \<Rightarrow> log_detail option \<Rightarrow> env" where
  "log_entry pf e lvl msg pkey fid detail =
     e\<lparr>ingest_log := ingest_log e @
        [\<lparr>log_ts = sql_now_log pf, log_provider_key = pkey, log_feed_id = fid,
          level = lvl, message = msg, detail_json = detail\<rparr>]\<rparr>"

text \<open>\<open>new Date(headerTsSec * 1000)\<close>: a time value beyond \<open>8.64e15\<close> ms is an invalid date.\<close>

definition date_of_seconds :: "num \<Rightarrow> jsdate" where
  "date_of_seconds ts =
     (case ts of PosInf \<Rightarrow> InvalidDate
      | Fin n \<Rightarrow> (case Number (n * 1000) of PosInf \<Rightarrow> InvalidDate
          | Fin m \<Rightarrow> if m \<le> 8640000000000000 then Date (int m) else InvalidDate))"

text \<open>
  The text stored in \<open>feed_ts\<close>: present when
  \<open>typeof headerTsSec === 'number' && headerTsSec > 0\<close>.
\<close>

definition feed_ts_text :: "(int \<Rightarrow> civil) \<Rightarrow> num option \<Rightarrow> string option" where
  "feed_ts_text tz headerTsSec =
     (case headerTsSec of None \<Rightarrow> None
      | Some v \<Rightarrow> if jslt (Fin 0) v then Some (fmtISO_Montreal tz (date_of_seconds v)) else None)"

text \<open>
  \<open>saveRT(env, pkey, feed_id, kind, ab)\<close>. It returns the result object and the
  bindings after the call; \<open>None\<close> is a call that never returns, which happens when
  \<open>parseFeedMeta\<close> does not.
\<close>

definition saveRT :: "(byte list \<Rightarrow> string) \<Rightarrow> platform \<Rightarrow> env \<Rightarrow> string \<Rightarrow> int \<Rightarrow> string
    \<Rightarrow> byte list \<Rightarrow> (save_result \<times> env) option" where
  "saveRT sha256Hex pf e pkey fid kind ab =
     (let hash = sha256Hex ab;
          exists = select_exists (table_of kind e) pkey hash
      in if exists then Some (Skipped, e)
         else do {
           (entityCount, headerTsSec) \<leftarrow> parseFeedMeta ab;
           let nowLocal = Date (now pf);
               date = fmtYMD_Montreal (toronto pf) nowLocal;
               isoLocal = fmtISO_Montreal (toronto pf) nowLocal;
               fname = kind @ ''_'' @ isoLocal @ ''.pb'';
               path = ''gtfs-rt/'' @ pkey @ ''/'' @ kind @ ''/dt='' @ date @ ''/'' @ fname;
               e1 = e\<lparr>R2 := (R2 e)(path \<mapsto> ab)\<rparr>;
               feedTsLocal = feed_ts_text (toronto pf) headerTsSec;
               e2 = insert_raw kind
                      \<lparr>provider_key = pkey, feed_id = fid, feed_ts = feedTsLocal,
                       ingested_at = sql_now_insert pf, hash_sha256 = hash,
                       entity_count = Some entityCount\<rparr> e1;
               e3 = log_entry pf e2 ''INFO'' (''Saved '' @ path) (Some pkey) (Some fid)
                      (Some \<lparr>r2_key = path, bytes = length ab,
                             detail_entity_count = entityCount, feed_ts_local = feedTsLocal\<rparr>)
           in Some (Saved path, e3)
         })"

subsection \<open>Notions used to state the claims about the snapshot store\<close>

definition unique_fingerprints :: "env \<Rightarrow> bool" where
  "unique_fingerprints e =
     (distinct (map (\<lambda>r. (provider_key r, hash_sha256 r)) (rt_trip_updates_raw e)) \<and>
      distinct (map (\<lambda>r. (provider_key r, hash_sha256 r)) (rt_vehicle_positions_raw e)))"

definition snapshots_of :: "env \<Rightarrow> string \<Rightarrow> string \<Rightarrow> string \<Rightarrow> raw_row list" where
  "snapshots_of e kind pkey hash =
     filter (\<lambda>r. provider_key r = pkey \<and> hash_sha256 r = hash) (table_of kind e)"

text \<open>A varint cut off by the end of the buffer: every byte present has its continuation bit set.\<close>

definition truncated_varint :: "byte list \<Rightarrow> bool" where
  "truncated_varint t = (t \<noteq> [] \<and> list_all (\<lambda>b. 128 \<le> unat b) t)"

definition local_date :: "civil \<Rightarrow> string" where
  "local_date c = show_nat (year c) @ ''-'' @ two_digit (month c) @ ''-'' @ two_digit (day c)"

definition local_time :: "civil \<Rightarrow> string" where
  "local_time c = two_digit (hour c) @ ''-'' @ two_digit (minute c) @ ''-'' @ two_digit (second c)"

section \<open>Concrete bindings used by the examples\<close>

definition example_civil :: civil where
  "example_civil = \<lparr>year = 2025, month = 12, day = 23, hour = 3, minute = 15, second = 30\<rparr>"

definition example_platform :: platform where
  "example_platform = \<lparr>now = 1766477730000, toronto = (\<lambda>t. example_civil),
     sql_now_insert = ''2025-12-23 03:15:30'', sql_now_log = ''2025-12-23 03:15:30''\<rparr>"

definition example_digest :: "byte list \<Rightarrow> string" where
  "example_digest ab = concat (map (\<lambda>b. two_digit (unat b mod 100)) ab)"

definition empty_env :: env where
  "empty_env = \<lparr>rt_trip_updates_raw = [], rt_vehicle_positions_raw = [], ingest_log = [],
     R2 = Map.empty\<rparr>"

definition blob_at :: "string \<Rightarrow> env \<Rightarrow> byte list option" where
  "blob_at k e = R2 e k"

definition example_path :: string where
  "example_path =
     ''gtfs-rt/stm/gtfsrt_trip_updates/dt=2025-12-23/gtfsrt_trip_updates_2025-12-23T03-15-30.pb''"

definition example_saved_env :: env where
  "example_saved_env =
     \<lparr>rt_trip_updates_raw =
        [\<lparr>provider_key = ''stm'', feed_id = 7, feed_ts = None,
          ingested_at = ''2025-12-23 03:15:30'', hash_sha256 = ''28'', entity_count = Some 0\<rparr>],
      rt_vehicle_positions_raw = [],
      ingest_log =
        [\<lparr>log_ts = ''2025-12-23 03:15:30'', log_provider_key = Some ''stm'',
          log_feed_id = Some 7, level = ''INFO'',
          message = ''Saved '' @ example_path,
          detail_json = Some
            \<lparr>r2_key = example_path, bytes = 1, detail_entity_count = 0, feed_ts_local = None\<rparr>\<rparr>],
      R2 = [example_path \<mapsto> [128]]\<rparr>"

definition claimed_key :: "string \<Rightarrow> string \<Rightarrow> civil \<Rightarrow> string" where
  "claimed_key sourceKey feedKind c =
     feedKind @ ''/'' @ sourceKey @ ''/'' @ feedKind @ ''/date='' @ local_date c @ ''/'' @
     feedKind @ ''_'' @ local_date c @ ''T'' @ local_time c"

section \<open>The protobuf parser of the API worker\<close>

text \<open>
  The API worker carries its own copies of \<open>readVarint\<close>, \<open>skipField\<close> and
  \<open>parseHeaderTimestamp\<close>; they are the functions of the ingestion worker, statement for
  statement, so the model above serves both.

  A property of a JavaScript object is \<open>undefined\<close> (never assigned), \<open>null\<close> or a value.
\<close>

datatype 'a js = Undefined | Null | Val 'a

text \<open>The exceptions met in the worker: the \<open>RangeError\<close> of a \<open>DataView\<close> read outside its
  buffer, and the \<open>ReferenceError\<close> of a name that is not in scope.\<close>

datatype js_error = RangeError | ReferenceError string

text \<open>A parser returns \<open>Inr\<close> its object or \<open>Inl\<close> the exception it throws; \<open>None\<close> is a
  loop that never returns.\<close>

type_synonym 'a parsed = "(js_error + 'a) option"

record stop_time_event =
  delay :: "num js"
  time :: "num js"

record trip_descriptor =
  trip_id :: "string js"
  route_id :: "string js"

record vehicle_descriptor =
  vehicle_id :: "string js"

record position =
  latitude :: "32 word js"
  longitude :: "32 word js"
  bearing :: "32 word js"
  speed :: "32 word js"

record stop_time_update =
  stop_id :: "string js"
  stop_sequence :: "num js"
  arrival :: stop_time_event
  departure :: stop_time_event

record trip_update =
  tu_trip :: trip_descriptor
  tu_stop_time_update :: "stop_time_update list"

record vehicle_position =
  vp_trip :: trip_descriptor
  vp_vehicle :: vehicle_descriptor
  vp_position :: position
  vp_timestamp :: "num js"

record entity =
  entity_id :: "string js"
  entity_trip_update :: "trip_update js"
  entity_vehicle :: "vehicle_position js"

record feed_message =
  header_timestamp :: "num js"
  feed_entity :: "entity list"

text \<open>The empty object \<open>{}\<close> at each type: every property \<open>undefined\<close>.\<close>

definition empty_event :: stop_time_event where
  "empty_event = \<lparr>delay = Undefined, time = Undefined\<rparr>"

definition empty_trip :: trip_descriptor where
  "empty_trip = \<lparr>trip_id = Undefined, route_id = Undefined\<rparr>"

definition empty_vehicle :: vehicle_descriptor where
  "empty_vehicle = \<lparr>vehicle_id = Undefined\<rparr>"

definition empty_position :: position where
  "empty_position = \<lparr>latitude = Undefined, longitude = Undefined, bearing = Undefined,
     speed = Undefined\<rparr>"

text \<open>
  \<open>u8.subarray(begin, end)\<close> for non-negative bounds: both are clamped to the length, and
  an end before the begin gives the empty array. \<open>new TextDecoder().decode\<close> is the UTF-8
  decoder of the platform, a parameter \<open>utf8\<close> of the parsers below.
\<close>

definition clamp_index :: "num \<Rightarrow> nat \<Rightarrow> nat" where
  "clamp_index v len = (case v of PosInf \<Rightarrow> len | Fin n \<Rightarrow> min n len)"

definition subarray :: "byte list \<Rightarrow> num \<Rightarrow> num \<Rightarrow> byte list" where
  "subarray u8 b e =
     (let i = clamp_index b (length u8); j = clamp_index e (length u8)
      in take (j - i) (drop i u8))"

partial_function (option) parseStopTimeEvent_loop ::
  "byte list \<Rightarrow> num \<Rightarrow> num \<Rightarrow> stop_time_event \<Rightarrow> stop_time_event option" where
  "parseStopTimeEvent_loop u8 end pos ste =
     (if jslt pos end then
        (let key = fst (readVarint u8 pos);
             nxt = snd (readVarint u8 pos);
             fieldNo = fieldNo_of key;
             wireType = wireType_of key
         in if fieldNo = 1 \<and> wireType = 0
            then parseStopTimeEvent_loop u8 end (snd (readVarint u8 nxt))
                   (ste\<lparr>delay := Val (fst (readVarint u8 nxt))\<rparr>)
            else if fieldNo = 2 \<and> wireType = 0
            then parseStopTimeEvent_loop u8 end (snd (readVarint u8 nxt))
                   (ste\<lparr>time := Val (fst (readVarint u8 nxt))\<rparr>)
            else parseStopTimeEvent_loop u8 end (skipField u8 nxt wireType) ste)
      else Some ste)"

definition parseStopTimeEvent :: "byte list \<Rightarrow> num \<Rightarrow> num \<Rightarrow> stop_time_event option" where
  "parseStopTimeEvent u8 start end =
     parseStopTimeEvent_loop u8 end start \<lparr>delay = Null, time = Null\<rparr>"

partial_function (option) parseTripDescriptor_loop ::
  "(byte list \<Rightarrow> string) \<Rightarrow> byte list \<Rightarrow> num \<Rightarrow> num \<Rightarrow> trip_descriptor
     \<Rightarrow> trip_descriptor option" where
  "parseTripDescriptor_loop utf8 u8 end pos td =
     (if jslt pos end then
        (let key = fst (readVarint u8 pos);
             nxt = snd (readVarint u8 pos);
             fieldNo = fieldNo_of key;
             wireType = wireType_of key
         in if wireType = 2 then
              (let len = fst (readVarint u8 nxt);
                   next2 = snd (readVarint u8 nxt);
                   str = utf8 (subarray u8 next2 (jsadd next2 len))
               in parseTripDescriptor_loop utf8 u8 end (jsadd next2 len)
                    (if fieldNo = 1 then td\<lparr>trip_id := Val str\<rparr>
                     else if fieldNo = 3 then td\<lparr>route_id := Val str\<rparr>
                     else td))
            else parseTripDescriptor_loop utf8 u8 end (skipField u8 nxt wireType) td)
      else Some td)"

definition parseTripDescriptor ::
  "(byte list \<Rightarrow> string) \<Rightarrow> byte list \<Rightarrow> num \<Rightarrow> num \<Rightarrow> trip_descriptor option" where
  "parseTripDescriptor utf8 u8 start end = parseTripDescriptor_loop utf8 u8 end start empty_trip"

partial_function (option) parseVehicleDescriptor_loop ::
  "(byte list \<Rightarrow> string) \<Rightarrow> byte list \<Rightarrow> num \<Rightarrow> num \<Rightarrow> vehicle_descriptor
     \<Rightarrow> vehicle_descriptor option" where
  "parseVehicleDescriptor_loop utf8 u8 end pos vd =
     (if jslt pos end then
        (let key = fst (readVarint u8 pos);
             nxt = snd (readVarint u8 pos);
             fieldNo = fieldNo_of key;
             wireType = wireType_of key
         in if wireType = 2 then
              (let len = fst (readVarint u8 nxt);
                   next2 = snd (readVarint u8 nxt);
                   str = utf8 (subarray u8 next2 (jsadd next2 len))
               in parseVehicleDescriptor_loop utf8 u8 end (jsadd next2 len)
                    (if fieldNo = 1 then vd\<lparr>vehicle_id := Val str\<rparr> else vd))
            else parseVehicleDescriptor_loop utf8 u8 end (skipField u8 nxt wireType) vd)
      else Some vd)"

definition parseVehicleDescriptor ::
  "(byte list \<Rightarrow> string) \<Rightarrow> byte list \<Rightarrow> num \<Rightarrow> num \<Rightarrow> vehicle_descriptor option" where
  "parseVehicleDescriptor utf8 u8 start end =
     parseVehicleDescriptor_loop utf8 u8 end start empty_vehicle"

text \<open>
  \<open>parsePosition\<close>: on a field 1 to 4 of wire type 5 it builds a \<open>DataView\<close> of 4 bytes
  that starts at \<open>pos\<close> and then calls \<open>getFloat32(pos, true)\<close> on it. The position is at
  least 1 after the key, so the read of 4 bytes at offset \<open>pos\<close> of a view of 4 bytes is
  out of bounds (as the construction of the view is when fewer than 4 bytes remain):
  either way the branch throws \<open>RangeError\<close>.
\<close>

partial_function (option) parsePosition_loop ::
  "byte list \<Rightarrow> num \<Rightarrow> num \<Rightarrow> position \<Rightarrow> position parsed" where
  "parsePosition_loop u8 end pos pos_obj =
     (if jslt pos end then
        (let key = fst (readVarint u8 pos);
             nxt = snd (readVarint u8 pos);
             fieldNo = fieldNo_of key;
             wireType = wireType_of key
         in if fieldNo = 1 \<and> wireType = 5 then Some (Inl RangeError)
            else if fieldNo = 2 \<and> wireType = 5 then Some (Inl RangeError)
            else if fieldNo = 3 \<and> wireType = 5 then Some (Inl RangeError)
            else if fieldNo = 4 \<and> wireType = 5 then Some (Inl RangeError)
            else parsePosition_loop u8 end (skipField u8 nxt wireType) pos_obj)
      else Some (Inr pos_obj))"

definition parsePosition :: "byte list \<Rightarrow> num \<Rightarrow> num \<Rightarrow> position parsed" where
  "parsePosition u8 start end =
     parsePosition_loop u8 end start
       \<lparr>latitude = Null, longitude = Null, bearing = Null, speed = Null\<rparr>"

partial_function (option) parseStopTimeUpdate_loop ::
  "(byte list \<Rightarrow> string) \<Rightarrow> byte list \<Rightarrow> num \<Rightarrow> num \<Rightarrow> stop_time_update
     \<Rightarrow> stop_time_update option" where
  "parseStopTimeUpdate_loop utf8 u8 end pos stu =
     (if jslt pos end then
        (let key = fst (readVarint u8 pos);
             nxt = snd (readVarint u8 pos);
             fieldNo = fieldNo_of key;
             wireType = wireType_of key
         in if wireType = 2 then
              (let len = fst (readVarint u8 nxt);
                   next2 = snd (readVarint u8 nxt);
                   subStart = next2;
                   subEnd = jsadd next2 len
               in if fieldNo = 1 then
                    parseStopTimeUpdate_loop utf8 u8 end subEnd
                      (stu\<lparr>stop_id := Val (utf8 (subarray u8 subStart subEnd))\<rparr>)
                  else if fieldNo = 2 then
                    do { ev \<leftarrow> parseStopTimeEvent u8 subStart subEnd;
                         parseStopTimeUpdate_loop utf8 u8 end subEnd (stu\<lparr>arrival := ev\<rparr>) }
                  else if fieldNo = 3 then
                    do { ev \<leftarrow> parseStopTimeEvent u8 subStart subEnd;
                         parseStopTimeUpdate_loop utf8 u8 end subEnd (stu\<lparr>departure := ev\<rparr>) }
                  else parseStopTimeUpdate_loop utf8 u8 end subEnd stu)
            else if fieldNo = 4 \<and> wireType = 0 then
              parseStopTimeUpdate_loop utf8 u8 end (snd (readVarint u8 nxt))
                (stu\<lparr>stop_sequence := Val (fst (readVarint u8 nxt))\<rparr>)
            else parseStopTimeUpdate_loop utf8 u8 end (skipField u8 nxt wireType) stu)
      else Some stu)"

definition parseStopTimeUpdate ::
  "(byte list \<Rightarrow> string) \<Rightarrow> byte list \<Rightarrow> num \<Rightarrow> num \<Rightarrow> stop_time_update option" where
  "parseStopTimeUpdate utf8 u8 start end =
     parseStopTimeUpdate_loop utf8 u8 end start
       \<lparr>stop_id = Null, stop_sequence = Null, arrival = empty_event, departure = empty_event\<rparr>"

partial_function (option) parseTripUpdate_loop ::
  "(byte list \<Rightarrow> string) \<Rightarrow> byte list \<Rightarrow> num \<Rightarrow> num \<Rightarrow> trip_update \<Rightarrow> trip_update option" where
  "parseTripUpdate_loop utf8 u8 end pos tu =
     (if jslt pos end then
        (let key = fst (readVarint u8 pos);
             nxt = snd (readVarint u8 pos);
             fieldNo = fieldNo_of key;
             wireType = wireType_of key
         in if wireType = 2 then
              (let len = fst (readVarint u8 nxt);
                   next2 = snd (readVarint u8 nxt);
                   subStart = next2;
                   subEnd = jsadd next2 len
               in if fieldNo = 1 then
                    do { td \<leftarrow> parseTripDescriptor utf8 u8 subStart subEnd;
                         parseTripUpdate_loop utf8 u8 end subEnd (tu\<lparr>tu_trip := td\<rparr>) }
                  else if fieldNo = 2 then
                    do { stu \<leftarrow> parseStopTimeUpdate utf8 u8 subStart subEnd;
                         parseTripUpdate_loop utf8 u8 end subEnd
                           (tu\<lparr>tu_stop_time_update := tu_stop_time_update tu @ [stu]\<rparr>) }
                  else parseTripUpdate_loop utf8 u8 end subEnd tu)
            else parseTripUpdate_loop utf8 u8 end (skipField u8 nxt wireType) tu)
      else Some tu)"

definition parseTripUpdate ::
  "(byte list \<Rightarrow> string) \<Rightarrow> byte list \<Rightarrow> num \<Rightarrow> num \<Rightarrow> trip_update option" where
  "parseTripUpdate utf8 u8 start end =
     parseTripUpdate_loop utf8 u8 end start \<lparr>tu_trip = empty_trip, tu_stop_time_update = []\<rparr>"

partial_function (option) parseVehiclePosition_loop ::
  "(byte list \<Rightarrow> string) \<Rightarrow> byte list \<Rightarrow> num \<Rightarrow> num \<Rightarrow> vehicle_position
     \<Rightarrow> vehicle_position parsed" where
  "parseVehiclePosition_loop utf8 u8 end pos vp =
     (if jslt pos end then
        (let key = fst (readVarint u8 pos);
             nxt = snd (readVarint u8 pos);
             fieldNo = fieldNo_of key;
             wireType = wireType_of key
         in if wireType = 2 then
              (let len = fst (readVarint u8 nxt);
                   next2 = snd (readVarint u8 nxt);
                   subStart = next2;
                   subEnd = jsadd next2 len
               in if fieldNo = 1 then
                    do { td \<leftarrow> parseTripDescriptor utf8 u8 subStart subEnd;
                         parseVehiclePosition_loop utf8 u8 end subEnd (vp\<lparr>vp_trip := td\<rparr>) }
                  else if fieldNo = 2 then
                    do { vd \<leftarrow> parseVehicleDescriptor utf8 u8 subStart subEnd;
                         parseVehiclePosition_loop utf8 u8 end subEnd (vp\<lparr>vp_vehicle := vd\<rparr>) }
                  else if fieldNo = 3 then
                    do { r \<leftarrow> parsePosition u8 subStart subEnd;
                         case r of Inl err \<Rightarrow> Some (Inl err)
                         | Inr p \<Rightarrow> parseVehiclePosition_loop utf8 u8 end subEnd
                                      (vp\<lparr>vp_position := p\<rparr>) }
                  else parseVehiclePosition_loop utf8 u8 end subEnd vp)
            else if fieldNo = 4 \<and> wireType = 0 then
              parseVehiclePosition_loop utf8 u8 end (snd (readVarint u8 nxt))
                (vp\<lparr>vp_timestamp := Val (fst (readVarint u8 nxt))\<rparr>)
            else parseVehiclePosition_loop utf8 u8 end (skipField u8 nxt wireType) vp)
      else Some (Inr vp))"

definition parseVehiclePosition ::
  "(byte list \<Rightarrow> string) \<Rightarrow> byte list \<Rightarrow> num \<Rightarrow> num \<Rightarrow> vehicle_position parsed" where
  "parseVehiclePosition utf8 u8 start end =
     parseVehiclePosition_loop utf8 u8 end start
       \<lparr>vp_trip = empty_trip, vp_vehicle = empty_vehicle, vp_position = empty_position,
        vp_timestamp = Null\<rparr>"

partial_function (option) parseEntity_loop ::
  "(byte list \<Rightarrow> string) \<Rightarrow> byte list \<Rightarrow> num \<Rightarrow> num \<Rightarrow> entity \<Rightarrow> entity parsed" where
  "parseEntity_loop utf8 u8 end pos ent =
     (if jslt pos end then
        (let key = fst (readVarint u8 pos);
             nxt = snd (readVarint u8 pos);
             fieldNo = fieldNo_of key;
             wireType = wireType_of key
         in if wireType = 2 then
              (let len = fst (readVarint u8 nxt);
                   next2 = snd (readVarint u8 nxt);
                   subStart = next2;
                   subEnd = jsadd next2 len
               in if fieldNo = 1 then
                    parseEntity_loop utf8 u8 end subEnd
                      (ent\<lparr>entity_id := Val (utf8 (subarray u8 subStart subEnd))\<rparr>)
                  else if fieldNo = 3 then
                    do { tu \<leftarrow> parseTripUpdate utf8 u8 subStart subEnd;
                         parseEntity_loop utf8 u8 end subEnd (ent\<lparr>entity_trip_update := Val tu\<rparr>) }
                  else if fieldNo = 4 then
                    do { r \<leftarrow> parseVehiclePosition utf8 u8 subStart subEnd;
                         case r of Inl err \<Rightarrow> Some (Inl err)
                         | Inr vp \<Rightarrow> parseEntity_loop utf8 u8 end subEnd
                                       (ent\<lparr>entity_vehicle := Val vp\<rparr>) }
                  else parseEntity_loop utf8 u8 end subEnd ent)
            else parseEntity_loop utf8 u8 end (skipField u8 nxt wireType) ent)
      else Some (Inr ent))"

definition parseEntity ::
  "(byte list \<Rightarrow> string) \<Rightarrow> byte list \<Rightarrow> num \<Rightarrow> num \<Rightarrow> entity parsed" where
  "parseEntity utf8 u8 start end =
     parseEntity_loop utf8 u8 end start
       \<lparr>entity_id = Null, entity_trip_update = Null, entity_vehicle = Null\<rparr>"

text \<open>The header timestamp of \<open>parseHeaderTimestamp\<close> is \<open>null\<close> or a number.\<close>

definition js_of_option :: "'a option \<Rightarrow> 'a js" where
  "js_of_option v = (case v of None \<Rightarrow> Null | Some x \<Rightarrow> Val x)"

partial_function (option) parseFeedMessage_loop ::
  "(byte list \<Rightarrow> string) \<Rightarrow> byte list \<Rightarrow> num \<Rightarrow> feed_message \<Rightarrow> feed_message parsed" where
  "parseFeedMessage_loop utf8 u8 pos feed =
     (if jslt pos (Fin (length u8)) then
        (let key = fst (readVarint u8 pos);
             nxt = snd (readVarint u8 pos);
             fieldNo = fieldNo_of key;
             wireType = wireType_of key
         in if wireType = 2 then
              (let len = fst (readVarint u8 nxt);
                   next2 = snd (readVarint u8 nxt);
                   subStart = next2;
                   subEnd = jsadd next2 len
               in if fieldNo = 1 then
                    do { ts \<leftarrow> parseHeaderTimestamp u8 subStart subEnd;
                         parseFeedMessage_loop utf8 u8 subEnd
                           (feed\<lparr>header_timestamp := js_of_option ts\<rparr>) }
                  else if fieldNo = 2 then
                    do { r \<leftarrow> parseEntity utf8 u8 subStart subEnd;
                         case r of Inl err \<Rightarrow> Some (Inl err)
                         | Inr ent \<Rightarrow> parseFeedMessage_loop utf8 u8 subEnd
                                        (feed\<lparr>feed_entity := feed_entity feed @ [ent]\<rparr>) }
                  else parseFeedMessage_loop utf8 u8 subEnd feed)
            else parseFeedMessage_loop utf8 u8 (skipField u8 nxt wireType) feed)
      else Some (Inr feed))"

definition parseFeedMessage :: "(byte list \<Rightarrow> string) \<Rightarrow> byte list \<Rightarrow> feed_message parsed" where
  "parseFeedMessage utf8 ab =
     parseFeedMessage_loop utf8 ab (Fin 0) \<lparr>header_timestamp = Null, feed_entity = []\<rparr>"

section \<open>Hot files of the bronze bucket\<close>

text \<open>
  An object of the bucket \<open>R2_BRONZE\<close>: its key, its upload instant in milliseconds when
  the listing carries one, and its body.
\<close>

record r2_object =
  obj_key :: string
  obj_uploaded :: "int option"
  obj_body :: "byte list"

text \<open>An element \<open>{ key, uploaded }\<close> of the list that \<open>listHotRTFiles\<close> returns.\<close>

record hot_file =
  file_key :: string
  file_uploaded :: int

text \<open>
  \<open>getHoursAgo(hours)\<close> sets the hour field of the current local time back by \<open>hours\<close>.
  The Workers runtime keeps local time in UTC, where this is the instant \<open>hours\<close> hours
  before \<open>now\<close>. Every \<open>new Date()\<close> of one request reads the same instant, \<open>tnow\<close>.
\<close>

definition getHoursAgo :: "int \<Rightarrow> int \<Rightarrow> int" where
  "getHoursAgo tnow hours = tnow - hours * 3600000"

text \<open>
  \<open>env.R2_BRONZE.list({ prefix })\<close> returns one page of the listing: the objects whose key
  starts with the prefix, in the lexicographic order of their keys, at most 1000 of them
  (the default \<open>limit\<close>). The page also carries a flag \<open>truncated\<close> and a cursor for the
  rest; \<open>listHotRTFiles\<close> reads \<open>list.objects\<close> only, so the model returns the objects.
\<close>

definition r2_list :: "r2_object list \<Rightarrow> string \<Rightarrow> r2_object list" where
  "r2_list bucket pfx =
     take 1000 (sort_key obj_key (filter (\<lambda>obj. take (length pfx) (obj_key obj) = pfx) bucket))"

text \<open>\<open>env.R2_BRONZE.get(key)\<close> followed by \<open>arrayBuffer()\<close>; \<open>None\<close> is \<open>null\<close>.\<close>

definition readHotRTFile :: "r2_object list \<Rightarrow> string \<Rightarrow> byte list option" where
  "readHotRTFile bucket k = map_option obj_body (find (\<lambda>obj. obj_key obj = k) bucket)"

text \<open>\<open>obj.uploaded ? new Date(obj.uploaded) : new Date()\<close>.\<close>

definition upload_time :: "int \<Rightarrow> r2_object \<Rightarrow> int" where
  "upload_time tnow obj = (case obj_uploaded obj of Some u \<Rightarrow> u | None \<Rightarrow> tnow)"

definition hot_prefix :: "string \<Rightarrow> string \<Rightarrow> string \<Rightarrow> string" where
  "hot_prefix provider feedKind date =
     ''gtfs-rt/'' @ provider @ ''/'' @ feedKind @ ''/dt='' @ date @ ''/''"

text \<open>
  \<open>listHotRTFiles(env, provider, feedKind, hoursBack)\<close>: the two loops push the objects of
  the two date prefixes whose timestamp is \<open>>= threshold\<close>; the result is sorted by
  \<open>b.uploaded - a.uploaded\<close>, newest first (the sort of an array is stable).
\<close>

definition listHotRTFiles ::
  "(int \<Rightarrow> civil) \<Rightarrow> int \<Rightarrow> r2_object list \<Rightarrow> string \<Rightarrow> string \<Rightarrow> int \<Rightarrow> hot_file list" where
  "listHotRTFiles tz tnow bucket provider feedKind hoursBack =
     (let threshold = getHoursAgo tnow hoursBack;
          thresholdDate = fmtYMD_Montreal tz (Date threshold);
          today = fmtYMD_Montreal tz (Date tnow);
          dates = [thresholdDate, today];
          files = concat (map (\<lambda>date.
                    map (\<lambda>obj. \<lparr>file_key = obj_key obj, file_uploaded = upload_time tnow obj\<rparr>)
                      (filter (\<lambda>obj. upload_time tnow obj \<ge> threshold)
                         (r2_list bucket (hot_prefix provider feedKind date)))) dates)
      in sort_key (\<lambda>f. - file_uploaded f) files)"

section \<open>Current trip updates\<close>

record tu_row =
  row_trip_id :: "string js"
  row_route_id :: "string js"
  row_stop_id :: "string js"
  row_stop_sequence :: "num js"
  row_arrival_delay :: "num js"
  row_departure_delay :: "num js"
  row_arrival_time :: "num js"
  row_departure_time :: "num js"

text \<open>The responses of the handler: the two JSON bodies with status 200, and
  \<open>errorResponse(message, status)\<close>.\<close>

datatype current_response =
    NoRecentTripUpdates
  | TripUpdates "tu_row list" "num js"
  | CurrentError string nat

text \<open>A query parameter is \<open>null\<close> (\<open>None\<close>) or a string; the empty string is falsy too.\<close>

definition truthy :: "string option \<Rightarrow> bool" where
  "truthy p = (case p of None \<Rightarrow> False | Some s \<Rightarrow> s \<noteq> [])"

definition or_default :: "string option \<Rightarrow> string \<Rightarrow> string" where
  "or_default p d = (case p of None \<Rightarrow> d | Some s \<Rightarrow> if s = [] then d else s)"

text \<open>\<open>x !== p\<close> for a property \<open>x\<close> and a truthy parameter \<open>p\<close>.\<close>

definition differs :: "string js \<Rightarrow> string option \<Rightarrow> bool" where
  "differs x p = (case x of Val s \<Rightarrow> Some s \<noteq> p | _ \<Rightarrow> True)"

text \<open>The two loops of \<open>handleCurrentTripUpdates\<close> over the entities and their stop time
  updates.\<close>

definition stop_rows :: "trip_update \<Rightarrow> string option \<Rightarrow> tu_row list" where
  "stop_rows tu stopId =
     map (\<lambda>stu. \<lparr>row_trip_id = trip_id (tu_trip tu), row_route_id = route_id (tu_trip tu),
                  row_stop_id = stop_id stu, row_stop_sequence = stop_sequence stu,
                  row_arrival_delay = delay (arrival stu),
                  row_departure_delay = delay (departure stu),
                  row_arrival_time = time (arrival stu),
                  row_departure_time = time (departure stu)\<rparr>)
       (filter (\<lambda>stu. \<not> (truthy stopId \<and> differs (stop_id stu) stopId))
          (tu_stop_time_update tu))"

definition trip_update_rows :: "feed_message \<Rightarrow> string option \<Rightarrow> string option \<Rightarrow> tu_row list" where
  "trip_update_rows feed routeId stopId =
     concat (map (\<lambda>ent. case entity_trip_update ent of
                    Val tu \<Rightarrow> if truthy routeId \<and> differs (route_id (tu_trip tu)) routeId then []
                              else stop_rows tu stopId
                  | _ \<Rightarrow> []) (feed_entity feed))"

text \<open>
  \<open>handleCurrentTripUpdates(req, env, url)\<close>. Beside the response (or the exception that
  leaves the handler) the model returns the keys fetched from the bucket, in order; \<open>None\<close>
  is a request that never returns.
\<close>

definition handleCurrentTripUpdates ::
  "(byte list \<Rightarrow> string) \<Rightarrow> (int \<Rightarrow> civil) \<Rightarrow> int \<Rightarrow> r2_object list
     \<Rightarrow> string option \<Rightarrow> string option \<Rightarrow> string option
     \<Rightarrow> ((js_error + current_response) \<times> string list) option" where
  "handleCurrentTripUpdates utf8 tz tnow bucket provider_param routeId stopId =
     (let provider = or_default provider_param ''stm'';
          files = listHotRTFiles tz tnow bucket provider ''gtfsrt_trip_updates'' 24
      in if length files = 0 then Some (Inr NoRecentTripUpdates, [])
         else
           (let latest = files ! 0
            in case readHotRTFile bucket (file_key latest) of
                 None \<Rightarrow> Some (Inr (CurrentError ''Failed to read RT file'' 500), [file_key latest])
               | Some ab \<Rightarrow>
                   do { r \<leftarrow> parseFeedMessage utf8 ab;
                        case r of Inl err \<Rightarrow> Some (Inl err, [file_key latest])
                        | Inr feed \<Rightarrow>
                            Some (Inr (TripUpdates (trip_update_rows feed routeId stopId)
                                         (header_timestamp feed)), [file_key latest]) }))"

definition example_zone :: "int \<Rightarrow> civil" where
  "example_zone t =
     (if t < 1766466000000
      then \<lparr>year = 2025, month = 12, day = 22, hour = 3, minute = 15, second = 30\<rparr>
      else \<lparr>year = 2025, month = 12, day = 23, hour = 3, minute = 15, second = 30\<rparr>)"

definition boundary_object :: r2_object where
  "boundary_object =
     \<lparr>obj_key = ''gtfs-rt/stm/gtfsrt_trip_updates/dt=2025-12-22/gtfsrt_trip_updates_2025-12-22T03-15-30.pb'',
      obj_uploaded = Some 1766391330000, obj_body = [8, 1]\<rparr>"

text \<open>
  The civil time of \<open>America/Toronto\<close> for the instants of March 2025, as the time-zone
  database has it: five hours behind UTC until 2025-03-09 07:00 UTC, when the clocks go
  from 02:00 to 03:00, and four hours behind UTC from then on.
\<close>

definition toronto_march_2025 :: "int \<Rightarrow> civil" where
  "toronto_march_2025 t =
     (let offset = (if t < 1741503600000 then 18000000 else 14400000);
          s = nat ((t - offset - 1740787200000) div 1000)
      in \<lparr>year = 2025, month = 3, day = Suc (s div 86400), hour = s mod 86400 div 3600,
          minute = s mod 3600 div 60, second = s mod 60\<rparr>)"

text \<open>
  Two snapshots as the ingestion worker stores them: one saved on 2025-03-08 at 23:10:00
  (04:10:00 UTC of the 9th), one saved on 2025-03-09 at 23:45:00 (03:45:00 UTC of the
  10th). Each body is a feed message made of a header with a timestamp.
\<close>

definition stale_snapshot :: r2_object where
  "stale_snapshot =
     \<lparr>obj_key = ''gtfs-rt/stm/gtfsrt_trip_updates/dt=2025-03-08/gtfsrt_trip_updates_2025-03-08T23-10-00.pb'',
      obj_uploaded = Some 1741493400000, obj_body = [10, 2, 24, 5]\<rparr>"

definition fresh_snapshot :: r2_object where
  "fresh_snapshot =
     \<lparr>obj_key = ''gtfs-rt/stm/gtfsrt_trip_updates/dt=2025-03-09/gtfsrt_trip_updates_2025-03-09T23-45-00.pb'',
      obj_uploaded = Some 1741578300000, obj_body = [10, 2, 24, 9]\<rparr>"

text \<open>The protobuf encoding of a \<open>StopTimeEvent\<close> whose \<open>delay\<close> (field 1, an \<open>int32\<close>) is
  \<open>-60\<close>: a negative \<open>int32\<close> is written as the ten-byte varint of \<open>2^64 - 60\<close>.\<close>

definition early_event :: "byte list" where
  "early_event = [8, 196, 255, 255, 255, 255, 255, 255, 255, 255, 1]"

section \<open>Historical aggregates\<close>

text \<open>
  The rows of \<open>rt_delays_hourly\<close> and \<open>rt_delays_daily\<close> (the latter has no \<open>hour\<close>
  column) and of \<open>rt_positions_hourly\<close> and \<open>rt_positions_daily\<close>, with the columns of the
  migration; a nullable column is an option, a \<open>REAL\<close> is a rational.
\<close>

record delay_row =
  d_provider_key :: string
  d_date :: string
  d_hour :: "int option"
  d_route_id :: "string option"
  d_stop_id :: "string option"
  d_trip_id :: "string option"
  avg_arrival_delay :: "rat option"
  max_arrival_delay :: "int option"
  min_arrival_delay :: "int option"
  avg_departure_delay :: "rat option"
  max_departure_delay :: "int option"
  min_departure_delay :: "int option"
  trip_count :: "int option"
  route_count :: "int option"
  stop_count :: "int option"

record position_row =
  p_provider_key :: string
  p_date :: string
  p_hour :: "int option"
  p_route_id :: "string option"
  p_vehicle_id :: "string option"
  p_trip_id :: "string option"
  avg_latitude :: "rat option"
  avg_longitude :: "rat option"
  avg_bearing :: "rat option"
  avg_speed :: "rat option"
  max_speed :: "rat option"
  vehicle_count :: "int option"
  p_route_count :: "int option"

datatype agg_row = DelayRow delay_row | PositionRow position_row

text \<open>
  The database \<open>env.DB\<close> as the API worker reads it. A table is \<open>None\<close> until the migration
  has created it; D1 rejects a statement on a table that does not exist.
\<close>

record d1 =
  rt_delays_hourly :: "delay_row list option"
  rt_delays_daily :: "delay_row list option"
  rt_positions_hourly :: "position_row list option"
  rt_positions_daily :: "position_row list option"

datatype aggregation = Hourly | Daily

text \<open>
  A bound parameter of the \<open>hour\<close> condition: \<open>null\<close> adds no condition; otherwise the
  condition is \<open>hour = ?\<close> with the result of \<open>parseInt\<close>, which is \<open>NaN\<close> (\<open>None\<close>) or an
  integer. \<open>NaN\<close> is bound as \<open>NULL\<close>, and \<open>hour = NULL\<close> holds for no row.
\<close>

definition hour_matches :: "int option option \<Rightarrow> int option \<Rightarrow> bool" where
  "hour_matches param col =
     (case param of None \<Rightarrow> True
      | Some None \<Rightarrow> False
      | Some (Some h) \<Rightarrow> col = Some h)"

text \<open>\<open>AND col = ?\<close> is added when the parameter is truthy; a \<open>NULL\<close> column matches no value.\<close>

definition text_matches :: "string option \<Rightarrow> string option \<Rightarrow> bool" where
  "text_matches param col = (truthy param \<longrightarrow> col = param)"

text \<open>
  The \<open>catch\<close> block of \<open>queryD1Historical\<close> first builds a debug record from \<open>e.message\<close>,
  \<open>e.name\<close>, \<open>tableName\<close> and \<open>sql\<close>. The two variables are declared with \<open>let\<close> inside the
  \<open>try\<close> block and are not in scope in the \<open>catch\<close> block: evaluating \<open>tableName\<close> throws a
  \<open>ReferenceError\<close>, and the function is left by this exception before \<open>return null\<close>.
\<close>

definition query_failure :: js_error where
  "query_failure = ReferenceError ''tableName''"

text \<open>
  \<open>env.DB.prepare(sql)\<close>, \<open>stmt.bind(...params).all()\<close> and \<open>result.results\<close>: the rows that
  the statement selects from its table; when the table does not exist the statement is
  rejected and the \<open>catch\<close> block runs.
\<close>

definition all_results :: "'r list option \<Rightarrow> ('r list \<Rightarrow> agg_row list) \<Rightarrow> js_error + agg_row list" where
  "all_results tbl select =
     (case tbl of None \<Rightarrow> Inl query_failure | Some rows \<Rightarrow> Inr (select rows))"

text \<open>
  \<open>queryD1Historical\<close>: the statement it builds selects from one of the four tables, with
  \<open>ORDER BY date\<close> and, for the hourly tables, \<open>hour\<close> (a stable sort here; the database
  leaves the order of ties open). For any other feed kind \<open>sql\<close> is never assigned, the
  statement is the text \<open>undefined ORDER BY date\<close>, which D1 rejects, and the \<open>catch\<close> block
  runs. The result is \<open>Inr\<close> the rows or \<open>Inl\<close> the exception that leaves the function.
\<close>

definition queryD1Historical ::
  "d1 \<Rightarrow> string \<Rightarrow> string \<Rightarrow> string \<Rightarrow> aggregation \<Rightarrow> int option option
     \<Rightarrow> string option \<Rightarrow> string option \<Rightarrow> js_error + agg_row list" where
  "queryD1Historical db provider feedKind date_param agg hour_param routeId stopId =
     (if feedKind = ''gtfsrt_trip_updates'' then
        (if agg = Hourly then
           all_results (rt_delays_hourly db) (\<lambda>tbl. map DelayRow (sort_key d_hour
             (filter (\<lambda>r. d_provider_key r = provider \<and> d_date r = date_param
                          \<and> hour_matches hour_param (d_hour r)
                          \<and> text_matches routeId (d_route_id r)
                          \<and> text_matches stopId (d_stop_id r))
                tbl)))
         else
           all_results (rt_delays_daily db) (\<lambda>tbl. map DelayRow
             (filter (\<lambda>r. d_provider_key r = provider \<and> d_date r = date_param
                          \<and> text_matches routeId (d_route_id r)
                          \<and> text_matches stopId (d_stop_id r))
                tbl)))
      else if feedKind = ''gtfsrt_vehicle_positions'' then
        (if agg = Hourly then
           all_results (rt_positions_hourly db) (\<lambda>tbl. map PositionRow (sort_key p_hour
             (filter (\<lambda>r. p_provider_key r = provider \<and> p_date r = date_param
                          \<and> hour_matches hour_param (p_hour r)
                          \<and> text_matches routeId (p_route_id r))
                tbl)))
         else
           all_results (rt_positions_daily db) (\<lambda>tbl. map PositionRow
             (filter (\<lambda>r. p_provider_key r = provider \<and> p_date r = date_param
                          \<and> text_matches routeId (p_route_id r))
                tbl)))
      else Inl query_failure)"

datatype historical_response =
    HistoricalData aggregation string "string option" string nat "agg_row list"
  | HistoricalError string nat

text \<open>
  \<open>handleHistorical(req, env, url)\<close>, with the search parameters as options and \<open>parseInt\<close>
  as a parameter of the model. An exception of \<open>queryD1Historical\<close> leaves the handler too;
  since \<open>return null\<close> is never reached, \<open>data\<close> is an array and \<open>!data\<close> is false.
\<close>

definition handleHistorical ::
  "(string \<Rightarrow> int option) \<Rightarrow> d1 \<Rightarrow> string option \<Rightarrow> string option \<Rightarrow> string option
     \<Rightarrow> string option \<Rightarrow> string option \<Rightarrow> string option \<Rightarrow> js_error + historical_response" where
  "handleHistorical parseInt db provider_param feed_kind_param date_param hour_param routeId stopId =
     (let provider = or_default provider_param ''stm'';
          feedKind = or_default feed_kind_param ''gtfsrt_trip_updates'';
          agg = (if truthy hour_param then Hourly else Daily)
      in case date_param of
           None \<Rightarrow> Inr (HistoricalError ''date parameter required'' 400)
         | Some date_text \<Rightarrow>
             if date_text = [] then Inr (HistoricalError ''date parameter required'' 400)
             else
               (case queryD1Historical db provider feedKind date_text agg
                             (case hour_param of None \<Rightarrow> None
                              | Some h \<Rightarrow> if h = [] then None else Some (parseInt h))
                             routeId stopId of
                  Inl e \<Rightarrow> Inl e
                | Inr data \<Rightarrow>
                    if length data = 0 then Inr (HistoricalError ''Historical data not found'' 404)
                    else Inr (HistoricalData agg date_text
                           (if truthy hour_param then hour_param else None)
                           feedKind (length data) data)))"

text \<open>The \<open>message\<close> of an exception, in the words of the V8 engine of the Workers runtime.\<close>

definition error_message :: "js_error \<Rightarrow> string" where
  "error_message e =
     (case e of RangeError \<Rightarrow> ''Offset is outside the bounds of the DataView''
      | ReferenceError x \<Rightarrow> x @ '' is not defined'')"

text \<open>
  The route \<open>/api/v1/rt/historical\<close> of the \<open>fetch\<close> handler of the worker:
  \<open>try { return await handleHistorical(req, env, url); }
    catch (e) { return errorResponse(e.message || 'Internal server error', 500); }\<close>.
\<close>

definition fetch_historical ::
  "(string \<Rightarrow> int option) \<Rightarrow> d1 \<Rightarrow> string option \<Rightarrow> string option \<Rightarrow> string option
     \<Rightarrow> string option \<Rightarrow> string option \<Rightarrow> string option \<Rightarrow> historical_response" where
  "fetch_historical parseInt db provider_param feed_kind_param date_param hour_param routeId stopId =
     (case handleHistorical parseInt db provider_param feed_kind_param date_param hour_param
             routeId stopId of
        Inl e \<Rightarrow> HistoricalError
                   (if error_message e = [] then ''Internal server error'' else error_message e) 500
      | Inr response \<Rightarrow> response)"

text \<open>\<open>parseInt\<close> on the strings of one decimal digit, \<open>NaN\<close> elsewhere: enough for the hours
  of the examples.\<close>

definition digit_parseInt :: "string \<Rightarrow> int option" where
  "digit_parseInt s = (case s of [c] \<Rightarrow> (if c \<in> set ''0123456789''
       then Some (int (length (takeWhile (\<lambda>d. d \<noteq> c) ''0123456789''))) else None)
     | _ \<Rightarrow> None)"

text \<open>The database after the migration, before any aggregate was loaded, and after the
  load of one hourly row of \<open>2025-12-22\<close>.\<close>

definition never_aggregated :: d1 where
  "never_aggregated = \<lparr>rt_delays_hourly = Some [], rt_delays_daily = Some [],
     rt_positions_hourly = Some [], rt_positions_daily = Some []\<rparr>"

definition aggregated_day :: d1 where
  "aggregated_day = never_aggregated\<lparr>rt_delays_hourly := Some
     [\<lparr>d_provider_key = ''stm'', d_date = ''2025-12-22'', d_hour = Some 6,
       d_route_id = Some ''24'', d_stop_id = Some ''51234'', d_trip_id = None,
       avg_arrival_delay = Some 45, max_arrival_delay = Some 120, min_arrival_delay = Some (- 30),
       avg_departure_delay = None, max_departure_delay = None, min_departure_delay = None,
       trip_count = Some 3, route_count = Some 1, stop_count = Some 1\<rparr>]\<rparr>"

section \<open>The aggregation engine\<close>

text \<open>
  Modelled from the spec: the data of the aggregate operation. Its code (the ETL script
  \<open>silver/etl/rt-historical-to-silver.py\<close> and the loader of the aggregates into D1) is
  not among the sources; only the tables it fills are, with their primary keys. The model
  follows section 4.4 of the specification: the decoded trip-delay entities of the
  snapshots of one partition (source key, date) are grouped by composite key, each group
  gives one row carrying the count of its entities and the true mean, the minimum and the
  maximum of the delays present, and the rows are upserted by primary key into the hourly
  and the daily store.
\<close>

record observation =
  ob_hour :: int
  ob_route :: "string option"
  ob_stop :: "string option"
  ob_trip :: "string option"
  ob_arrival :: "int option"
  ob_departure :: "int option"

record bucket =
  b_source :: string
  b_date :: string
  b_hour :: "int option"
  b_route :: "string option"
  b_stop :: "string option"
  b_trip :: "string option"
  b_entities :: nat
  b_avg_arrival :: "rat option"
  b_min_arrival :: "int option"
  b_max_arrival :: "int option"
  b_avg_departure :: "rat option"
  b_min_departure :: "int option"
  b_max_departure :: "int option"

text \<open>
  Modelled from the spec: the composite keys of section 4.4 within one partition, hour,
  route, stop and trip for the hourly rows, and route, stop and trip for the daily rows; a
  part that the entity does not carry is \<open>None\<close>.
\<close>

type_synonym group_key = "int option \<times> string option \<times> string option \<times> string option"

definition hourly_key :: "observation \<Rightarrow> group_key" where
  "hourly_key ob = (Some (ob_hour ob), ob_route ob, ob_stop ob, ob_trip ob)"

definition daily_key :: "observation \<Rightarrow> group_key" where
  "daily_key ob = (None, ob_route ob, ob_stop ob, ob_trip ob)"

text \<open>
  Modelled from the spec: the statistics of section 4.4, over the values present (an entity
  with a missing field does not count for that statistic): the true mean, the minimum and
  the maximum, absent when no value is present.
\<close>

definition present :: "'a option list \<Rightarrow> 'a list" where
  "present vs = concat (map (\<lambda>v. case v of None \<Rightarrow> [] | Some x \<Rightarrow> [x]) vs)"

definition mean :: "int list \<Rightarrow> rat option" where
  "mean vs = (if vs = [] then None else Some (of_int (sum_list vs) / of_int (int (length vs))))"

definition minimum :: "int list \<Rightarrow> int option" where
  "minimum vs = (case vs of [] \<Rightarrow> None | v # rest \<Rightarrow> Some (fold min rest v))"

definition maximum :: "int list \<Rightarrow> int option" where
  "maximum vs = (case vs of [] \<Rightarrow> None | v # rest \<Rightarrow> Some (fold max rest v))"

text \<open>
  Modelled from the spec: the row of one key, computed from all the entities of the run
  that have this key, and the rows of a run, one per key met.
\<close>

definition bucket_of ::
  "string \<Rightarrow> string \<Rightarrow> (observation \<Rightarrow> group_key) \<Rightarrow> observation list \<Rightarrow> group_key \<Rightarrow> bucket" where
  "bucket_of source date_text keyf obs k =
     (let grp = filter (\<lambda>ob. keyf ob = k) obs;
          arr = present (map ob_arrival grp);
          dep = present (map ob_departure grp)
      in \<lparr>b_source = source, b_date = date_text, b_hour = fst k, b_route = fst (snd k),
          b_stop = fst (snd (snd k)), b_trip = snd (snd (snd k)),
          b_entities = length grp,
          b_avg_arrival = mean arr, b_min_arrival = minimum arr, b_max_arrival = maximum arr,
          b_avg_departure = mean dep, b_min_departure = minimum dep,
          b_max_departure = maximum dep\<rparr>)"

definition aggregate_rows ::
  "string \<Rightarrow> string \<Rightarrow> (observation \<Rightarrow> group_key) \<Rightarrow> observation list \<Rightarrow> bucket list" where
  "aggregate_rows source date_text keyf obs =
     map (bucket_of source date_text keyf obs) (remdups (map keyf obs))"

text \<open>
  The columns of \<open>PRIMARY KEY (provider_key, date, hour, route_id, stop_id, trip_id)\<close> of
  \<open>rt_delays_hourly\<close> in the migration; \<open>rt_delays_daily\<close> has the same key without \<open>hour\<close>,
  which is \<open>None\<close> in every row of the daily store.
\<close>

definition primary_key ::
  "bucket \<Rightarrow> string \<times> string \<times> int option \<times> string option \<times> string option \<times> string option" where
  "primary_key b = (b_source b, b_date b, b_hour b, b_route b, b_stop b, b_trip b)"

text \<open>
  The migration declares \<open>route_id\<close>, \<open>stop_id\<close> and \<open>trip_id\<close> without \<open>NOT NULL\<close>, in
  ordinary (rowid) tables. SQLite enforces such a primary key through a unique index, in
  which \<open>NULL\<close> is distinct from every value, \<open>NULL\<close> itself included: a row to be written
  conflicts with a stored row when their keys are equal and no key column is \<open>NULL\<close>.
\<close>

definition key_complete :: "bucket \<Rightarrow> bool" where
  "key_complete b = (b_route b \<noteq> None \<and> b_stop b \<noteq> None \<and> b_trip b \<noteq> None)"

definition conflicts :: "bucket \<Rightarrow> bucket \<Rightarrow> bool" where
  "conflicts r x = (key_complete r \<and> primary_key x = primary_key r)"

text \<open>
  Modelled from the spec: the upsert of one row by primary key, missing from the sources
  with the loader. The row replaces the stored row it conflicts with on the primary key of
  the migration, and is inserted when it conflicts with none.
\<close>

definition upsert :: "bucket \<Rightarrow> bucket list \<Rightarrow> bucket list" where
  "upsert r tbl =
     (if \<exists>x\<in>set tbl. conflicts r x
      then map (\<lambda>x. if conflicts r x then r else x) tbl
      else tbl @ [r])"

text \<open>Modelled from the spec: the upsert of the rows of one run, one after the other.\<close>

definition upsert_all :: "bucket list \<Rightarrow> bucket list \<Rightarrow> bucket list" where
  "upsert_all rows tbl = fold upsert rows tbl"

record aggregate_store =
  hourly_store :: "bucket list"
  daily_store :: "bucket list"

text \<open>
  Modelled from the spec: the input of one run. A raw snapshot of the partition carries
  its ingestion instant and its decoded trip-delay entities; a run at \<open>run_time\<close> takes the
  snapshots older than the hot window, the one exactly on the boundary included.
\<close>

record snapshot =
  sn_ingested :: int
  sn_entities :: "observation list"

definition cold_snapshots :: "int \<Rightarrow> int \<Rightarrow> snapshot list \<Rightarrow> snapshot list" where
  "cold_snapshots hot_window run_time snaps =
     filter (\<lambda>sn. sn_ingested sn \<le> run_time - hot_window) snaps"

text \<open>
  Modelled from the spec: \<open>aggregate\<close> for one partition (source key, date), missing from
  the sources with the ETL script: the entities of the cold snapshots are grouped, and one
  row per key is upserted into the hourly and into the daily store.
\<close>

definition aggregate ::
  "string \<Rightarrow> string \<Rightarrow> int \<Rightarrow> int \<Rightarrow> snapshot list \<Rightarrow> aggregate_store \<Rightarrow> aggregate_store" where
  "aggregate source date_text hot_window run_time snaps st =
     (let obs = concat (map sn_entities (cold_snapshots hot_window run_time snaps))
      in \<lparr>hourly_store = upsert_all (aggregate_rows source date_text hourly_key obs) (hourly_store st),
          daily_store = upsert_all (aggregate_rows source date_text daily_key obs) (daily_store st)\<rparr>)"



section \<open>Auxiliary lemmas\<close>

lemma and127: "unat (and (w::byte) 127) = unat w mod 128"
proof -
  have "and w 127 = take_bit 7 w" by (simp add: take_bit_eq_mask mask_eq_exp_minus_1)
  then show ?thesis by (simp add: unsigned_take_bit_eq take_bit_eq_mod unat_mod_distrib)
qed

lemma odd_div128: "(m::nat) < 256 \<Longrightarrow> odd (m div 128) = (128 \<le> m)"
proof (cases "128 \<le> m")
  case True
  assume "m < 256"
  with True have "m div 128 = 1" by (intro div_nat_eqI) simp_all
  with True show ?thesis by simp
next
  case False
  then show ?thesis by simp
qed

lemma and128: "unat (and (w::byte) 128) = (if 128 \<le> unat w then 128 else 0)"
proof -
  have e: "(128::byte) = push_bit 7 1" by simp
  have a: "and w 128 = (if bit w 7 then 128 else 0)"
  proof (rule bit_eqI)
    fix n
    show "bit (and w 128) n = bit (if bit w 7 then 128 else 0 :: byte) n"
      by (cases "n = 7") (auto simp: bit_simps e simp del: push_bit_of_1)
  qed
  have lt: "unat w < 256" using unsigned_less [of w, where 'a = nat] by simp
  have "bit w 7 = bit (unat w) 7" by (simp add: bit_unsigned_iff)
  also have "\<dots> = odd (unat w div 128)" by (simp add: bit_iff_odd)
  also have "\<dots> = (128 \<le> unat w)" using lt by (rule odd_div128)
  finally have b: "bit w 7 = (128 \<le> unat w)" .
  show ?thesis unfolding a b by simp
qed

lemma b5: "or (push_bit s (n mod 128)) (push_bit (s + 7) (n div 128)) = push_bit s (n::nat)"
proof -
  have "or (take_bit 7 n) (push_bit 7 (drop_bit 7 n)) = n"
  proof (rule bit_eqI)
    fix k
    show "bit (or (take_bit 7 n) (push_bit 7 (drop_bit 7 n))) k = bit n k"
      by (cases "k < 7") (auto simp: bit_simps)
  qed
  then have "push_bit s (or (take_bit 7 n) (push_bit 7 (drop_bit 7 n))) = push_bit s n" by simp
  then show ?thesis
    by (simp add: push_bit_or push_bit_push_bit take_bit_eq_mod drop_bit_eq_div)
qed

lemma band_small: "n < 128 \<Longrightarrow> band (Some (word_of_nat n)) 127 = n \<and> band (Some (word_of_nat n)) 128 = 0"
  by (simp add: band_def and127 and128 unat_of_nat)

lemma band_cont: "band (Some (word_of_nat (n mod 128 + 128))) 127 = n mod 128
   \<and> band (Some (word_of_nat (n mod 128 + 128))) 128 \<noteq> 0"
proof -
  have "n mod 128 + 128 < 256" by simp
  then have u: "unat (word_of_nat (n mod 128 + 128) :: byte) = n mod 128 + 128"
    by (simp only: unat_of_nat) simp
  show ?thesis unfolding band_def option.case and127 and128 u by simp
qed

lemma band_cont':
  "band (Some (word_of_nat (n mod 128) + 128)) 127 = n mod 128
   \<and> band (Some (word_of_nat (n mod 128) + 128)) 128 \<noteq> 0"
  using band_cont [of n] by simp

lemma u8_at_mid: "length pre < 2 ^ 53 \<Longrightarrow> u8_at (pre @ b # rest) (Fin (length pre)) = Some b"
  by (simp add: u8_at_def)

lemma readVarint_loop_varint:
  "length pre + length (varint n) \<le> 2 ^ 53 \<Longrightarrow>
   readVarint_loop (pre @ varint n @ rest) (Fin (length pre)) x s
     = (Number (or x (push_bit s n)), Fin (length pre + length (varint n)))"
proof (induction n arbitrary: pre x s rule: varint.induct)
  case (1 n)
  show ?case
  proof (cases "n < 128")
    case True
    then have v: "varint n = [word_of_nat n]" by (simp add: varint.simps)
    from "1.prems" v have l: "length pre < 2 ^ 53" by simp
    show ?thesis
      unfolding v using l True
      by (subst readVarint_loop.simps)
         (simp add: u8_at_mid band_small jsadd_exact del: jsadd.simps)
  next
    case False
    then have v: "varint n = word_of_nat (n mod 128 + 128) # varint (n div 128)"
      by (subst varint.simps) simp
    let ?b = "word_of_nat (n mod 128 + 128) :: byte"
    from "1.prems" v have l: "length pre < 2 ^ 53" by simp
    from "1.prems" v have l2: "length (pre @ [?b]) + length (varint (n div 128)) \<le> 2 ^ 53" by simp
    have ih: "readVarint_loop ((pre @ [?b]) @ varint (n div 128) @ rest) (Fin (length (pre @ [?b])))
               (or x (push_bit s (n mod 128))) (s + 7)
          = (Number (or (or x (push_bit s (n mod 128))) (push_bit (s + 7) (n div 128))),
             Fin (length (pre @ [?b]) + length (varint (n div 128))))"
      using False l2 by (rule "1.IH")
    have o: "or (or x (push_bit s (n mod 128))) (push_bit (s + 7) (n div 128)) = or x (push_bit s n)"
      by (simp add: or.assoc b5)
    show ?thesis
      unfolding v using l ih
      by (subst readVarint_loop.simps)
         (simp add: u8_at_mid band_cont' jsadd_exact o del: jsadd.simps)
  qed
qed

lemma readVarint_varint:
  "length pre + length (varint n) \<le> 2 ^ 53 \<Longrightarrow>
   readVarint (pre @ varint n @ rest) (Fin (length pre))
     = (Number n, Fin (length pre + length (varint n)))"
  by (simp add: readVarint_def readVarint_loop_varint)

lemma wire_type_lt: "valid_field (fno, p) \<Longrightarrow> wire_type p < 8"
  by (cases p) auto

lemma toInt32_small: "n < 2 ^ 31 \<Longrightarrow> toInt32 (Fin n) = int n"
proof -
  assume a: "n < 2 ^ 31"
  have "int n + 2 ^ 31 < 2 ^ 32" using a by simp
  then have "(int n + 2 ^ 31) mod 2 ^ 32 = int n + 2 ^ 31" by simp
  then show ?thesis unfolding toInt32_def by simp
qed

lemma toInt32_big: "2 ^ 31 \<le> n \<Longrightarrow> n < 2 ^ 32 \<Longrightarrow> toInt32 (Fin n) = int n - 2 ^ 32"
proof -
  assume a: "2 ^ 31 \<le> n" "n < 2 ^ 32"
  have "int n + 2 ^ 31 = (int n - 2 ^ 31) + 1 * 2 ^ 32" by simp
  then have "(int n + 2 ^ 31) mod 2 ^ 32 = (int n - 2 ^ 31) mod 2 ^ 32"
    by (simp only: mod_mult_self1)
  also have "\<dots> = int n - 2 ^ 31" using a by simp
  finally show ?thesis unfolding toInt32_def by simp
qed

lemma toInt32_key:
  assumes "fno < 2 ^ 29" "wt < 8"
  shows "wireType_of (Fin (fno * 8 + wt)) = int wt"
    and "fieldNo_of (Fin (fno * 8 + wt)) = 1 \<longleftrightarrow> fno = 1"
    and "fieldNo_of (Fin (fno * 8 + wt)) = 2 \<longleftrightarrow> fno = 2"
    and "fieldNo_of (Fin (fno * 8 + wt)) = 3 \<longleftrightarrow> fno = 3"
proof -
  let ?k = "fno * 8 + wt"
  have k: "?k < 2 ^ 32" using assms by simp
  have dm: "int ?k div 8 = int fno" "int ?k mod 8 = int wt" using assms by simp_all
  have c: "toInt32 (Fin ?k) = int ?k \<or> (toInt32 (Fin ?k) = int ?k - 8 * 2 ^ 29 \<and> 2 ^ 28 \<le> fno)"
  proof (cases "?k < 2 ^ 31")
    case True
    then show ?thesis by (simp add: toInt32_small)
  next
    case False
    then have "2 ^ 31 \<le> ?k" by simp
    moreover from this assms have "2 ^ 28 \<le> fno" by simp
    ultimately show ?thesis using k by (simp add: toInt32_big)
  qed
  have e: "int ?k - 8 * 2 ^ 29 = int wt + (int fno - 2 ^ 29) * 8" by simp
  have "(int wt + (int fno - 2 ^ 29) * 8) mod 8 = int wt mod 8" by (rule mod_mult_self1)
  moreover have "(int wt + (int fno - 2 ^ 29) * 8) div 8 = (int fno - 2 ^ 29) + int wt div 8"
    by (rule div_mult_self1) simp
  ultimately have big: "(int ?k - 8 * 2 ^ 29) div 8 = int fno - 2 ^ 29"
      "(int ?k - 8 * 2 ^ 29) mod 8 = int wt"
    unfolding e using assms by simp_all
  show "wireType_of (Fin (fno * 8 + wt)) = int wt"
    using c dm big unfolding wireType_of_def by auto
  show "fieldNo_of (Fin (fno * 8 + wt)) = 1 \<longleftrightarrow> fno = 1"
    using c dm big assms unfolding fieldNo_of_def by auto
  show "fieldNo_of (Fin (fno * 8 + wt)) = 2 \<longleftrightarrow> fno = 2"
    using c dm big assms unfolding fieldNo_of_def by auto
  show "fieldNo_of (Fin (fno * 8 + wt)) = 3 \<longleftrightarrow> fno = 3"
    using c dm big assms unfolding fieldNo_of_def by auto
qed

lemma bitlen_lower: "n \<noteq> 0 \<Longrightarrow> 2 ^ (bitlen n - 1) \<le> n"
proof (induction n rule: bitlen.induct)
  case (1 n)
  show ?case
  proof (cases "n div 2 = 0")
    case True
    with "1.prems" have "n = 1" by (cases n) auto
    then show ?thesis by (subst bitlen.simps) (simp add: bitlen.simps)
  next
    case False
    with "1.IH" "1.prems" have ih: "2 ^ (bitlen (n div 2) - 1) \<le> n div 2" by blast
    from False have "bitlen (n div 2) \<noteq> 0" by (subst bitlen.simps) simp
    then have "bitlen (n div 2) = Suc (bitlen (n div 2) - 1)" by simp
    then have "(2::nat) ^ bitlen (n div 2) = 2 * 2 ^ (bitlen (n div 2) - 1)"
      by (metis power_Suc)
    also have "\<dots> \<le> 2 * (n div 2)" using ih by simp
    also have "\<dots> \<le> n" by simp
    finally show ?thesis using "1.prems" by (subst bitlen.simps) simp
  qed
qed

lemma round53_ge: assumes "2 ^ 53 \<le> m" shows "2 ^ 53 \<le> round53 m"
proof -
  define e where "e = bitlen m - 53"
  define q where "q = m div 2 ^ e"
  have bl: "53 < bitlen m" using assms by (rule bitlen_ge)
  then have e1: "1 \<le> e" and be: "bitlen m - 1 = 52 + e" by (simp_all add: e_def)
  have m0: "m \<noteq> 0" using assms by auto
  have "(2::nat) ^ 52 * 2 ^ e = 2 ^ (bitlen m - 1)" unfolding be by (simp add: power_add)
  also have "\<dots> \<le> m" using m0 by (rule bitlen_lower)
  finally have "2 ^ 52 \<le> q" unfolding q_def
    by (simp add: less_eq_div_iff_mult_less_eq)
  moreover have "(2::nat) ^ 1 \<le> 2 ^ e" using e1 by (intro power_increasing) simp_all
  ultimately have "(2::nat) ^ 52 * 2 ^ 1 \<le> q * 2 ^ e" by (rule mult_le_mono)
  then have a: "(2::nat) ^ 53 \<le> q * 2 ^ e" by simp
  have "q * 2 ^ e \<le> round53 m"
    using assms unfolding round53_def Let_def e_def [symmetric] q_def [symmetric]
    by (simp add: not_less [symmetric])
  with a show ?thesis by linarith
qed

lemma Number_ge: "a \<le> 2 ^ 53 \<Longrightarrow> a \<le> m \<Longrightarrow> num_ge (Number m) a"
proof (cases "m < 2 ^ 53")
  case True
  assume "a \<le> m"
  with True show ?thesis by (simp add: Number_small num_ge_def)
next
  case False
  assume a: "a \<le> 2 ^ 53"
  from False have "2 ^ 53 \<le> round53 m" by (intro round53_ge) simp
  with a have "a \<le> round53 m" by linarith
  then show ?thesis by (simp add: Number_def num_ge_def Let_def)
qed

lemma jsadd_ge: "a \<le> 2 ^ 53 \<Longrightarrow> num_ge (jsadd (Fin a) w) a"
proof (cases w)
  case (Fin b)
  assume "a \<le> 2 ^ 53"
  then have "num_ge (Number (a + b)) a" by (rule Number_ge) simp
  with Fin show ?thesis by simp
next
  case PosInf
  then show ?thesis by (simp add: num_ge_def)
qed

lemma Number_stuck: "Number (2 ^ 53 + 1) = Fin (2 ^ 53)"
proof -
  have "bitlen (2 ^ 53 + 1) \<le> 54" by (rule bitlen_less) simp
  moreover have "53 < bitlen (2 ^ 53 + 1)" by (rule bitlen_ge) simp
  ultimately have b: "bitlen (2 ^ 53 + 1) - 53 = 1" by linarith
  have r: "round53 (2 ^ 53 + 1) = 2 ^ 53"
    unfolding round53_def Let_def b by simp
  have "(2::nat) ^ 53 < 2 ^ 1024" by (rule power_strict_increasing) simp_all
  then show ?thesis unfolding Number_def Let_def r by (rule if_P)
qed

lemma jsadd_stuck: "jsadd (Fin (2 ^ 53)) (Fin 1) = Fin (2 ^ 53)"
  using Number_stuck by simp

lemma jsadd_stuck': "jsadd (Fin 9007199254740992) (Fin (Suc 0)) = Fin 9007199254740992"
  using jsadd_stuck by simp

lemma readVarint_loop_next:
  "p \<le> 2 ^ 53 \<Longrightarrow>
   \<exists>r. snd (readVarint_loop u8 (Fin p) x s) = Fin r \<and> r \<le> 2 ^ 53 \<and> p \<le> r
       \<and> (p < 2 ^ 53 \<longrightarrow> p < r)"
proof (induction u8 "Fin p" x s arbitrary: p rule: readVarint_loop.induct)
  case (1 u8 x s)
  show ?case
  proof (cases "p < 2 ^ 53")
    case False
    with "1.prems" have p: "p = 2 ^ 53" by simp
    have "u8_at u8 (Fin p) = None" unfolding p by (simp add: u8_at_def)
    then show ?thesis
      unfolding p
      by (subst readVarint_loop.simps) (simp add: band_def jsadd_stuck' del: jsadd.simps)
  next
    case True
    then have j: "jsadd (Fin p) (Fin 1) = Fin (p + 1)" by (simp add: jsadd_exact del: jsadd.simps)
    then have j': "jsadd (Fin p) (Fin (Suc 0)) = Fin (Suc p)" by simp
    show ?thesis
    proof (cases "band (u8_at u8 (Fin p)) 128 = 0")
      case z: True
      show ?thesis using True z
        by (subst readVarint_loop.simps) (simp add: j' Let_def del: jsadd.simps)
    next
      case nz: False
      from True have "p + 1 \<le> 2 ^ 53" by simp
      with "1.hyps" [OF refl j [symmetric] refl nz]
      obtain r where "snd (readVarint_loop u8 (Fin (p + 1))
            (or x (push_bit s (band (u8_at u8 (Fin p)) 127))) (s + 7)) = Fin r"
          "r \<le> 2 ^ 53" "p + 1 \<le> r"
        by (auto simp: j' simp del: jsadd.simps)
      then show ?thesis using nz
        by (subst readVarint_loop.simps) (simp add: j' Let_def del: jsadd.simps)
    qed
  qed
qed

lemma readVarint_next:
  "p \<le> 2 ^ 53 \<Longrightarrow>
   \<exists>r. snd (readVarint u8 (Fin p)) = Fin r \<and> r \<le> 2 ^ 53 \<and> p \<le> r \<and> (p < 2 ^ 53 \<longrightarrow> p < r)"
  unfolding readVarint_def by (rule readVarint_loop_next)

lemma skipField_ge: "r \<le> 2 ^ 53 \<Longrightarrow> num_ge (skipField u8 (Fin r) wt) r"
proof -
  assume r: "r \<le> 2 ^ 53"
  from readVarint_next [OF r, of u8] obtain r2 where
    r2: "snd (readVarint u8 (Fin r)) = Fin r2" "r2 \<le> 2 ^ 53" "r \<le> r2" by blast
  have "num_ge (jsadd (Fin r2) (fst (readVarint u8 (Fin r)))) r2" using r2(2) by (rule jsadd_ge)
  then have a: "num_ge (jsadd (Fin r2) (fst (readVarint u8 (Fin r)))) r"
    using r2(3) by (auto simp: num_ge_def split: num.splits)
  show ?thesis
    using r2 a jsadd_ge [OF r, of "Fin 8"] jsadd_ge [OF r, of "Fin 4"]
    by (auto simp: skipField_def num_ge_def split_beta simp del: jsadd.simps)
qed

lemma parseHeaderTimestamp_loop_returns:
  "e \<le> 2 ^ 53 \<Longrightarrow> \<exists>r. parseHeaderTimestamp_loop u8 (Fin e) pos ts = Some r"
proof (cases pos)
  case PosInf
  then show ?thesis by (subst parseHeaderTimestamp_loop.simps) simp
next
  case (Fin p)
  assume e: "e \<le> 2 ^ 53"
  have "\<exists>r. parseHeaderTimestamp_loop u8 (Fin e) (Fin p) ts = Some r"
  proof (induction "e - p" arbitrary: p ts rule: less_induct)
    case less
    show ?case
    proof (cases "p < e")
      case False
      then show ?thesis by (subst parseHeaderTimestamp_loop.simps) simp
    next
      case True
      with e have p: "p \<le> 2 ^ 53" "p < 2 ^ 53" by simp_all
      from readVarint_next [OF p(1), of u8] p(2) obtain n where
        n: "snd (readVarint u8 (Fin p)) = Fin n" "n \<le> 2 ^ 53" "p < n" by blast
      have step: "\<exists>r. parseHeaderTimestamp_loop u8 (Fin e) q ts' = Some r" if "num_ge q n" for q ts'
      proof (cases q)
        case PosInf
        then show ?thesis by (subst parseHeaderTimestamp_loop.simps) simp
      next
        case (Fin k)
        with that have "n \<le> k" by (simp add: num_ge_def)
        show ?thesis
        proof (cases "k < e")
          case False
          then show ?thesis unfolding Fin by (subst parseHeaderTimestamp_loop.simps) simp
        next
          case kt: True
          with \<open>n \<le> k\<close> \<open>p < n\<close> have "e - k < e - p" by linarith
          then show ?thesis unfolding Fin by (rule less.hyps)
        qed
      qed
      from readVarint_next [OF n(2), of u8] obtain n2 where
        "snd (readVarint u8 (Fin n)) = Fin n2" "n \<le> n2" by blast
      then have a: "num_ge (snd (readVarint u8 (Fin n))) n" by (simp add: num_ge_def)
      have b: "num_ge (skipField u8 (Fin n) wt) n" for wt using n(2) by (rule skipField_ge)
      show ?thesis
        using True step [OF a] step [OF b]
        by (subst parseHeaderTimestamp_loop.simps) (simp add: Let_def n)
    qed
  qed
  with Fin show ?thesis by simp
qed

lemma varint_nonempty: "0 < length (varint n)"
  by (subst varint.simps) simp

lemma parseFeedMeta_loop_step:
  assumes v: "valid_field (fno, p)"
    and l: "length pre + length (encode_field (fno, p)) + length rest < 2 ^ 53"
  shows "\<exists>h'. parseFeedMeta_loop (pre @ encode_field (fno, p) @ rest) (Fin (length pre)) c h
       = parseFeedMeta_loop (pre @ encode_field (fno, p) @ rest)
           (Fin (length pre + length (encode_field (fno, p))))
           (c + (if is_entity (fno, p) then 1 else 0)) h'"
proof -
  define k where "k = fno * 8 + wire_type p"
  define u8 where "u8 = pre @ encode_field (fno, p) @ rest"
  define n where "n = length pre + length (varint k)"
  define e where "e = length pre + length (encode_field (fno, p))"
  from v have fno: "fno < 2 ^ 29" by simp
  have wt: "wire_type p < 8" using v by (rule wire_type_lt)
  from fno wt have "k < 2 ^ 32" by (simp add: k_def)
  moreover have "(2::nat) ^ 32 < 2 ^ 53" by simp
  ultimately have k53: "k < 2 ^ 53" by linarith
  have u: "u8 = pre @ varint k @ (encode_payload p @ rest)" by (simp add: u8_def k_def)
  have "length pre + length (varint k) \<le> 2 ^ 53" using l by (simp add: k_def)
  then have "readVarint u8 (Fin (length pre)) = (Number k, Fin n)"
    unfolding u n_def by (rule readVarint_varint)
  then have rk: "readVarint u8 (Fin (length pre)) = (Fin k, Fin n)"
    using k53 by (simp add: Number_small)
  have lt: "jslt (Fin (length pre)) (Fin (length u8))"
    using varint_nonempty [of k] by (simp add: u)
  have wk: "wireType_of (Fin k) = int (wire_type p)"
    and f1: "fieldNo_of (Fin k) = 1 \<longleftrightarrow> fno = 1"
    and f2: "fieldNo_of (Fin k) = 2 \<longleftrightarrow> fno = 2"
    unfolding k_def using toInt32_key [OF fno wt] by blast+
  have n53: "n \<le> 2 ^ 53" using l by (simp add: n_def k_def)
  have skip: "parseFeedMeta_loop u8 (Fin (length pre)) c h = parseFeedMeta_loop u8 (Fin e) c h"
    if "wire_type p \<noteq> 2" "skipField u8 (Fin n) (int (wire_type p)) = Fin e"
    by (subst parseFeedMeta_loop.simps) (simp add: lt rk wk that Let_def del: jslt.simps)
  show ?thesis
  proof (cases p)
    case (Varint x)
    have u2: "u8 = (pre @ varint k) @ varint x @ rest" using Varint by (simp add: u)
    have "length (pre @ varint k) + length (varint x) \<le> 2 ^ 53" using l Varint by (simp add: k_def)
    then have "readVarint u8 (Fin (length (pre @ varint k)))
       = (Number x, Fin (length (pre @ varint k) + length (varint x)))"
      unfolding u2 by (rule readVarint_varint)
    then have "skipField u8 (Fin n) (int (wire_type p)) = Fin e"
      using Varint by (simp add: skipField_def n_def e_def k_def)
    with Varint have "parseFeedMeta_loop u8 (Fin (length pre)) c h = parseFeedMeta_loop u8 (Fin e) c h"
      by (intro skip) simp_all
    then show ?thesis using Varint unfolding u8_def e_def by auto
  next
    case (Fixed64 bs)
    have "jsadd (Fin n) (Fin 8) = Fin (n + 8)" using l v Fixed64 by (intro jsadd_exact) (simp add: n_def k_def)
    then have "skipField u8 (Fin n) (int (wire_type p)) = Fin e"
      using Fixed64 v by (simp add: skipField_def n_def e_def k_def del: jsadd.simps)
    with Fixed64 have "parseFeedMeta_loop u8 (Fin (length pre)) c h = parseFeedMeta_loop u8 (Fin e) c h"
      by (intro skip) simp_all
    then show ?thesis using Fixed64 unfolding u8_def e_def by auto
  next
    case (Fixed32 bs)
    have "jsadd (Fin n) (Fin 4) = Fin (n + 4)" using l v Fixed32 by (intro jsadd_exact) (simp add: n_def k_def)
    then have "skipField u8 (Fin n) (int (wire_type p)) = Fin e"
      using Fixed32 v by (simp add: skipField_def n_def e_def k_def del: jsadd.simps)
    with Fixed32 have "parseFeedMeta_loop u8 (Fin (length pre)) c h = parseFeedMeta_loop u8 (Fin e) c h"
      by (intro skip) simp_all
    then show ?thesis using Fixed32 unfolding u8_def e_def by auto
  next
    case (TagOnly w)
    with v have w: "w = 3 \<or> w = 4 \<or> w = 6 \<or> w = 7" by simp
    then have "skipField u8 (Fin n) (int (wire_type p)) = Fin e"
      using TagOnly by (auto simp: skipField_def n_def e_def k_def)
    moreover from w TagOnly have "wire_type p \<noteq> 2" by auto
    ultimately have "parseFeedMeta_loop u8 (Fin (length pre)) c h = parseFeedMeta_loop u8 (Fin e) c h"
      by (intro skip)
    then show ?thesis using TagOnly unfolding u8_def e_def by auto
  next
    case (LenDelim bs)
    define m where "m = n + length (varint (length bs))"
    have u2: "u8 = (pre @ varint k) @ varint (length bs) @ (bs @ rest)" using LenDelim by (simp add: u)
    have nl: "n = length (pre @ varint k)" by (simp add: n_def)
    have "length (pre @ varint k) + length (varint (length bs)) \<le> 2 ^ 53"
      using l LenDelim by (simp add: k_def)
    then have "readVarint u8 (Fin (length (pre @ varint k)))
        = (Number (length bs), Fin (length (pre @ varint k) + length (varint (length bs))))"
      unfolding u2 by (rule readVarint_varint)
    moreover have "length bs < 2 ^ 53" using l LenDelim by simp
    ultimately have rl: "readVarint u8 (Fin n) = (Fin (length bs), Fin m)"
      by (simp add: Number_small m_def nl)
    have e: "m + length bs = e" using LenDelim by (simp add: m_def n_def e_def k_def)
    have e53: "e \<le> 2 ^ 53" using l by (simp add: e_def)
    then have "jsadd (Fin m) (Fin (length bs)) = Fin (m + length bs)"
      unfolding e [symmetric] by (rule jsadd_exact)
    then have se: "jsadd (Fin m) (Fin (length bs)) = Fin e" unfolding e .
    obtain ts where ts: "parseHeaderTimestamp u8 (Fin m) (Fin e) = Some ts"
      unfolding parseHeaderTimestamp_def
      using parseHeaderTimestamp_loop_returns [OF e53, of u8 "Fin m" None] by blast
    have w2: "wireType_of (Fin k) = 2" using LenDelim wk by simp
    have "parseFeedMeta_loop u8 (Fin (length pre)) c h
        = parseFeedMeta_loop u8 (Fin e) (c + (if fno = 2 then 1 else 0))
            (if fno = 1 then (if ts \<noteq> None then ts else h) else h)"
      by (subst parseFeedMeta_loop.simps)
         (simp add: lt rk rl se w2 f1 f2 ts Let_def del: jslt.simps jsadd.simps)
    then show ?thesis using LenDelim unfolding u8_def e_def by auto
  qed
qed

lemma parseFeedMeta_loop_fields:
  "list_all valid_field fs \<Longrightarrow> length pre + length (encode_fields fs) + length rest < 2 ^ 53 \<Longrightarrow>
   \<exists>h'. parseFeedMeta_loop (pre @ encode_fields fs @ rest) (Fin (length pre)) c h
          = parseFeedMeta_loop (pre @ encode_fields fs @ rest)
              (Fin (length pre + length (encode_fields fs)))
              (c + length (filter is_entity fs)) h'"
proof (induction fs arbitrary: pre c h)
  case Nil
  show ?case by (auto simp: encode_fields_def)
next
  case (Cons f fs)
  obtain fno p where f: "f = (fno, p)" by (cases f)
  have ef: "encode_fields (f # fs) = encode_field (fno, p) @ encode_fields fs"
    by (simp add: encode_fields_def f)
  from Cons.prems have v: "valid_field (fno, p)" and vs: "list_all valid_field fs" by (simp_all add: f)
  from Cons.prems have l: "length pre + length (encode_field (fno, p))
      + length (encode_fields fs @ rest) < 2 ^ 53"
    by (simp add: ef)
  from parseFeedMeta_loop_step [OF v l, of c h] obtain h1 where
    s: "parseFeedMeta_loop (pre @ encode_field (fno, p) @ encode_fields fs @ rest) (Fin (length pre)) c h
       = parseFeedMeta_loop (pre @ encode_field (fno, p) @ encode_fields fs @ rest)
           (Fin (length pre + length (encode_field (fno, p))))
           (c + (if is_entity (fno, p) then 1 else 0)) h1" by blast
  from l have l': "length (pre @ encode_field (fno, p)) + length (encode_fields fs) + length rest < 2 ^ 53"
    by simp
  from Cons.IH [OF vs l', of "c + (if is_entity (fno, p) then 1 else 0)" h1] obtain h2 where
    "parseFeedMeta_loop ((pre @ encode_field (fno, p)) @ encode_fields fs @ rest)
        (Fin (length (pre @ encode_field (fno, p)))) (c + (if is_entity (fno, p) then 1 else 0)) h1
      = parseFeedMeta_loop ((pre @ encode_field (fno, p)) @ encode_fields fs @ rest)
          (Fin (length (pre @ encode_field (fno, p)) + length (encode_fields fs)))
          (c + (if is_entity (fno, p) then 1 else 0) + length (filter is_entity fs)) h2" by blast
  with s have "parseFeedMeta_loop (pre @ encode_fields (f # fs) @ rest) (Fin (length pre)) c h
      = parseFeedMeta_loop (pre @ encode_fields (f # fs) @ rest)
          (Fin (length pre + length (encode_fields (f # fs))))
          (c + (if is_entity (fno, p) then 1 else 0) + length (filter is_entity fs)) h2"
    unfolding ef by (simp add: add.assoc)
  then show ?case by (auto simp: f)
qed

lemma parseFeedMeta_loop_at_end:
  "num_ge pos (length u8) \<Longrightarrow> parseFeedMeta_loop u8 pos c h = Some (c, h)"
  by (subst parseFeedMeta_loop.simps) (cases pos; simp add: num_ge_def)

lemma jsadd_one: "p \<le> 2 ^ 53 \<Longrightarrow> jsadd (Fin p) (Fin 1) = Fin (min (p + 1) (2 ^ 53))"
proof (cases "p < 2 ^ 53")
  case True
  then show ?thesis by (simp add: jsadd_exact del: jsadd.simps)
next
  case False
  assume "p \<le> 2 ^ 53"
  with False have "p = 2 ^ 53" by simp
  then show ?thesis using jsadd_stuck by simp
qed

lemma readVarint_past_end:
  "length u8 \<le> p \<Longrightarrow> readVarint u8 (Fin p) = (Fin 0, jsadd (Fin p) (Fin 1))"
  unfolding readVarint_def
  by (subst readVarint_loop.simps) (simp add: u8_at_def band_def Number_small del: jsadd.simps)

lemma header_loop_diverges:
  assumes "parseHeaderTimestamp_loop u8 en pos ts = Some r"
  shows "\<not> (\<exists>e p. en = Fin e \<and> pos = Fin p \<and> length u8 \<le> p \<and> p \<le> 2 ^ 53 \<and> 2 ^ 53 < e)"
proof (rule parseHeaderTimestamp_loop.raw_induct
    [where P = "\<lambda>u8 en pos ts r. \<not> (\<exists>e p. en = Fin e \<and> pos = Fin p \<and> length u8 \<le> p
        \<and> p \<le> 2 ^ 53 \<and> 2 ^ 53 < e)", OF _ assms])
  fix f :: "byte list \<Rightarrow> num \<Rightarrow> num \<Rightarrow> num option \<Rightarrow> num option option"
    and u8 en pos ts r
  assume ih: "\<And>u8 en pos ts r. f u8 en pos ts = Some r \<Longrightarrow>
      \<not> (\<exists>e p. en = Fin e \<and> pos = Fin p \<and> length u8 \<le> p \<and> p \<le> 2 ^ 53 \<and> 2 ^ 53 < e)"
    and body: "(if jslt pos en
      then let key = fst (readVarint u8 pos); nxt = snd (readVarint u8 pos);
               fieldNo = fieldNo_of key; wireType = wireType_of key
           in if fieldNo = 3 \<and> wireType = 0
              then f u8 en (snd (readVarint u8 nxt)) (Some (fst (readVarint u8 nxt)))
              else f u8 en (skipField u8 nxt wireType) ts
      else Some ts) = Some r"
  show "\<not> (\<exists>e p. en = Fin e \<and> pos = Fin p \<and> length u8 \<le> p \<and> p \<le> 2 ^ 53 \<and> 2 ^ 53 < e)"
  proof
    assume "\<exists>e p. en = Fin e \<and> pos = Fin p \<and> length u8 \<le> p \<and> p \<le> 2 ^ 53 \<and> 2 ^ 53 < e"
    then obtain e p where i: "en = Fin e" "pos = Fin p" "length u8 \<le> p" "p \<le> 2 ^ 53" "2 ^ 53 < e"
      by blast
    define n where "n = min (p + 1) (2 ^ 53)"
    define n2 where "n2 = min (n + 1) (2 ^ 53)"
    have n: "length u8 \<le> n" "n \<le> 2 ^ 53" using i by (simp_all add: n_def)
    have n2: "length u8 \<le> n2" "n2 \<le> 2 ^ 53" using n by (simp_all add: n2_def)
    have r1: "readVarint u8 (Fin p) = (Fin 0, Fin n)"
      using readVarint_past_end [OF i(3)] jsadd_one [OF i(4)] by (simp add: n_def)
    have r2: "readVarint u8 (Fin n) = (Fin 0, Fin n2)"
      using readVarint_past_end [OF n(1)] jsadd_one [OF n(2)] by (simp add: n2_def)
    have k: "fieldNo_of (Fin 0) = 0" "wireType_of (Fin 0) = 0"
      by (simp_all add: fieldNo_of_def wireType_of_def toInt32_def)
    from body i have a: "f u8 (Fin e) (Fin n2) ts = Some r"
      by (simp add: r1 r2 k skipField_def Let_def)
    from ih [OF a] n2 i show False by simp
  qed
qed

lemma parseHeaderTimestamp_diverges:
  "length u8 \<le> p \<Longrightarrow> p \<le> 2 ^ 53 \<Longrightarrow> 2 ^ 53 < e \<Longrightarrow> parseHeaderTimestamp u8 (Fin p) (Fin e) = None"
  unfolding parseHeaderTimestamp_def using header_loop_diverges [of u8 "Fin e" "Fin p" None]
  by (cases "parseHeaderTimestamp_loop u8 (Fin e) (Fin p) None") auto

lemma Number_pow2_52: assumes "52 + j < 1024" "1 \<le> j" shows "Number (2 ^ (52 + j)) = Fin (2 ^ (52 + j))"
proof -
  have b: "bitlen (2 ^ (52 + j)) - 53 = j" by (simp only: bitlen_pow2)
  have p: "(2::nat) ^ (52 + j) = 2 ^ 52 * 2 ^ j" by (simp only: power_add)
  have "(2::nat) ^ 52 * 2 ^ j div 2 ^ j = 2 ^ 52" by (rule div_mult_self_is_m) simp
  moreover have "(2::nat) ^ 52 * 2 ^ j mod 2 ^ j = 0" by (rule mod_mult_self2_is_0)
  ultimately have d: "(2::nat) ^ (52 + j) div 2 ^ j = 2 ^ 52" "(2::nat) ^ (52 + j) mod 2 ^ j = 0"
    unfolding p by blast+
  have "(2::nat) ^ 53 \<le> 2 ^ (52 + j)" using assms by (intro power_increasing) simp_all
  then have n: "\<not> (2::nat) ^ (52 + j) < 2 ^ 53" by simp
  have r: "round53 (2 ^ (52 + j)) = 2 ^ (52 + j)"
    unfolding round53_def Let_def b d using n by (simp add: p)
  have "(2::nat) ^ (52 + j) < 2 ^ 1024" using assms by (intro power_strict_increasing) simp_all
  then show ?thesis unfolding Number_def Let_def r by (rule if_P)
qed

lemma Number_2_62: "Number 4611686018427387904 = Fin 4611686018427387904"
  using Number_pow2_52 [of 10] by simp

lemma subEnd_example: "jsadd (Fin 10) (Fin 4611686018427387904) = Fin 4611686018427387904"
proof -
  have "bitlen (2 ^ 62 + 10) \<le> 63" by (rule bitlen_less) simp
  moreover have "62 < bitlen (2 ^ 62 + 10)" by (rule bitlen_ge) simp
  ultimately have b: "bitlen 4611686018427387914 - 53 = 10" by simp
  have r: "round53 4611686018427387914 = 4611686018427387904"
    unfolding round53_def Let_def b by simp
  have "(2::nat) ^ 62 < 2 ^ 1024" by (rule power_strict_increasing) simp_all
  then have "(4611686018427387904::nat) < 2 ^ 1024" by simp
  then have "Number 4611686018427387914 = Fin 4611686018427387904"
    unfolding Number_def Let_def r by (rule if_P)
  then show ?thesis by simp
qed

lemma hang_key: "readVarint hang_input (Fin 0) = (Fin 10, Fin (Suc 0))"
  by (simp add: hang_input_def readVarint_def readVarint_loop.simps u8_at_def band_def
        Number_small jsadd_exact del: jsadd.simps)

lemma hang_len: "readVarint hang_input (Fin (Suc 0)) = (Fin 4611686018427387904, Fin 10)"
  by (simp add: hang_input_def readVarint_def readVarint_loop.simps u8_at_def band_def
        jsadd_exact Number_2_62 del: jsadd.simps)

lemma table_of_log [simp]: "table_of kind (log_entry pf e l m p f d) = table_of kind e"
  by (simp add: table_of_def log_entry_def)

lemma table_of_insert_raw:
  "table_of kind (insert_raw kind r e) = table_of kind e @ [r]"
  by (simp add: table_of_def insert_raw_def)

lemma saveRT_skips:
  "select_exists (table_of kind e) pkey (sha ab) \<Longrightarrow> saveRT sha pf e pkey fid kind ab = Some (Skipped, e)"
  by (simp add: saveRT_def)

lemma saveRT_new:
  assumes "\<not> select_exists (table_of kind e) pkey (sha ab)" "parseFeedMeta ab = Some (c, h)"
  shows "\<exists>path e'. saveRT sha pf e pkey fid kind ab = Some (Saved path, e')
     \<and> e' = log_entry pf (insert_raw kind
           \<lparr>provider_key = pkey, feed_id = fid, feed_ts = feed_ts_text (toronto pf) h,
            ingested_at = sql_now_insert pf, hash_sha256 = sha ab, entity_count = Some c\<rparr>
           (e\<lparr>R2 := (R2 e)(path \<mapsto> ab)\<rparr>)) ''INFO'' (''Saved '' @ path) (Some pkey) (Some fid)
           (Some \<lparr>r2_key = path, bytes = length ab, detail_entity_count = c,
                  feed_ts_local = feed_ts_text (toronto pf) h\<rparr>)"
  using assms by (simp add: saveRT_def Let_def)

lemma unique_insert:
  assumes "unique_fingerprints e" "\<not> select_exists (table_of kind e) (provider_key r) (hash_sha256 r)"
  shows "unique_fingerprints (insert_raw kind r e)"
proof -
  from assms(2) have "(provider_key r, hash_sha256 r)
      \<notin> set (map (\<lambda>r. (provider_key r, hash_sha256 r)) (table_of kind e))"
    by (auto simp: select_exists_def filter_empty_conv)
  with assms(1) show ?thesis
    by (auto simp: unique_fingerprints_def insert_raw_def table_of_def split: if_splits)
qed

lemma unique_log [simp]: "unique_fingerprints (log_entry pf e l m p f d) = unique_fingerprints e"
  by (simp add: unique_fingerprints_def log_entry_def)

lemma unique_R2 [simp]: "unique_fingerprints (e\<lparr>R2 := x\<rparr>) = unique_fingerprints e"
  by (simp add: unique_fingerprints_def)

lemma table_of_R2 [simp]: "table_of kind (e\<lparr>R2 := x\<rparr>) = table_of kind e"
  by (simp add: table_of_def)

lemma distinct_key_filter:
  "distinct (map key xs) \<Longrightarrow> length (filter (\<lambda>r. key r = k) xs) \<le> 1"
proof (induction xs)
  case Nil
  then show ?case by simp
next
  case (Cons x xs)
  show ?case
  proof (cases "key x = k")
    case True
    with Cons.prems have "\<forall>r\<in>set xs. key r \<noteq> k" by (auto simp: image_iff)
    then have "filter (\<lambda>r. key r = k) xs = []" by (simp add: filter_empty_conv)
    with True show ?thesis by simp
  next
    case False
    with Cons show ?thesis by simp
  qed
qed

lemma readVarint_loop_truncated:
  "list_all (\<lambda>b. 128 \<le> unat b) t \<Longrightarrow> length pre + length t < 2 ^ 53 \<Longrightarrow>
   \<exists>v. readVarint_loop (pre @ t) (Fin (length pre)) x s = (v, Fin (length pre + length t + 1))"
proof (induction t arbitrary: pre x s)
  case Nil
  have "u8_at pre (Fin (length pre)) = None" by (simp add: u8_at_def)
  then show ?case using Nil
    by (subst readVarint_loop.simps) (simp add: band_def jsadd_exact del: jsadd.simps)
next
  case (Cons b t)
  from Cons.prems have l: "length pre < 2 ^ 53" by simp
  from Cons.prems have c: "band (Some b) 128 \<noteq> 0" by (simp add: band_def and128)
  from Cons.prems have "list_all (\<lambda>b. 128 \<le> unat b) t" "length (pre @ [b]) + length t < 2 ^ 53"
    by simp_all
  from Cons.IH [OF this] obtain v where
    "readVarint_loop ((pre @ [b]) @ t) (Fin (length (pre @ [b])))
       (or x (push_bit s (band (Some b) 127))) (s + 7)
     = (v, Fin (length (pre @ [b]) + length t + 1))" by blast
  then show ?case using l c
    by (subst readVarint_loop.simps) (simp add: u8_at_mid jsadd_exact del: jsadd.simps)
qed

lemma parseFeedMeta_loop_truncated:
  assumes t: "truncated_varint t" and l: "length pre + length t + 2 < 2 ^ 53"
  shows "\<exists>c'. parseFeedMeta_loop (pre @ t) (Fin (length pre)) c h = Some (c', h)
      \<and> c \<le> c' \<and> c' \<le> c + 1"
proof -
  define u8 where "u8 = pre @ t"
  define L where "L = length u8"
  from t have ne: "t \<noteq> []" and ac: "list_all (\<lambda>b. 128 \<le> unat b) t"
    by (simp_all add: truncated_varint_def)
  from l have "length pre + length t < 2 ^ 53" by simp
  from readVarint_loop_truncated [OF ac this, of 0 0] obtain key where
    rk: "readVarint u8 (Fin (length pre)) = (key, Fin (Suc L))"
    by (auto simp: readVarint_def u8_def L_def)
  have lt: "jslt (Fin (length pre)) (Fin (length u8))" using ne by (simp add: u8_def)
  have L1: "Suc L \<le> 2 ^ 53" using l by (simp add: L_def u8_def)
  show ?thesis
  proof (cases "wireType_of key = 2")
    case True
    have "length u8 \<le> Suc L" by (simp add: L_def)
    from readVarint_past_end [OF this] have "readVarint u8 (Fin (Suc L)) = (Fin 0, jsadd (Fin (Suc L)) (Fin 1))" .
    moreover have "jsadd (Fin (Suc L)) (Fin 1) = Fin (Suc (Suc L))"
      using l jsadd_exact [of "Suc L" 1] by (simp add: L_def u8_def)
    ultimately have r2: "readVarint u8 (Fin (Suc L)) = (Fin 0, Fin (Suc (Suc L)))" by simp
    have se: "jsadd (Fin (Suc (Suc L))) (Fin 0) = Fin (Suc (Suc L))"
      using l jsadd_exact [of "Suc (Suc L)" 0] by (simp add: L_def u8_def)
    have ph: "parseHeaderTimestamp u8 (Fin (Suc (Suc L))) (Fin (Suc (Suc L))) = Some None"
      unfolding parseHeaderTimestamp_def by (subst parseHeaderTimestamp_loop.simps) simp
    have en: "parseFeedMeta_loop u8 (Fin (Suc (Suc L))) c'' h = Some (c'', h)" for c''
      by (rule parseFeedMeta_loop_at_end) (simp add: num_ge_def L_def)
    have "parseFeedMeta_loop u8 (Fin (length pre)) c h
        = Some (c + (if fieldNo_of key = 2 then 1 else 0), h)"
      by (subst parseFeedMeta_loop.simps)
         (simp add: lt rk r2 se True ph en Let_def del: jslt.simps jsadd.simps)
    then show ?thesis unfolding u8_def by auto
  next
    case False
    have "num_ge (skipField u8 (Fin (Suc L)) (wireType_of key)) (Suc L)"
      using L1 by (rule skipField_ge)
    then have "num_ge (skipField u8 (Fin (Suc L)) (wireType_of key)) (length u8)"
      by (auto simp: num_ge_def L_def split: num.splits)
    then have en: "parseFeedMeta_loop u8 (skipField u8 (Fin (Suc L)) (wireType_of key)) c h = Some (c, h)"
      by (rule parseFeedMeta_loop_at_end)
    have "parseFeedMeta_loop u8 (Fin (length pre)) c h = Some (c, h)"
      by (subst parseFeedMeta_loop.simps)
         (simp add: lt rk False en Let_def del: jslt.simps jsadd.simps)
    then show ?thesis unfolding u8_def by auto
  qed
qed

lemma parseFeedMeta_truncated:
  assumes "list_all valid_field fs" "truncated_varint t"
    and "length (encode_fields fs) + length t + 2 < 2 ^ 53"
  shows "\<exists>c ts. parseFeedMeta (encode_fields fs @ t) = Some (c, ts)"
proof -
  from assms have "length [] + length (encode_fields fs) + length t < 2 ^ 53" by simp
  from parseFeedMeta_loop_fields [OF assms(1) this, of 0 None] obtain h' where
    a: "parseFeedMeta (encode_fields fs @ t)
       = parseFeedMeta_loop (encode_fields fs @ t) (Fin (length (encode_fields fs)))
           (length (filter is_entity fs)) h'"
    by (auto simp: parseFeedMeta_def)
  from assms have "length (encode_fields fs) + length t + 2 < 2 ^ 53" by simp
  from parseFeedMeta_loop_truncated [OF assms(2) this, of "length (filter is_entity fs)" h']
  show ?thesis unfolding a by blast
qed

lemma digit_plain: "d < 10 \<Longrightarrow> digit d \<notin> {CHR '','', CHR ''/'', CHR '' '', CHR '':''}"
proof -
  assume "d < 10"
  then have "d \<in> {0, 1, 2, 3, 4, 5, 6, 7, 8, 9}" by auto
  then show ?thesis by (auto simp: digit_def)
qed

lemma show_nat_plain: "set (show_nat n) \<inter> {CHR '','', CHR ''/'', CHR '' '', CHR '':''} = {}"
proof (induction n rule: show_nat.induct)
  case (1 n)
  show ?case
  proof (cases "n < 10")
    case True
    then show ?thesis using digit_plain [of n] by (subst show_nat.simps) simp
  next
    case False
    have "n mod 10 < 10" by simp
    from digit_plain [OF this] "1.IH" [OF False] False show ?thesis
      by (subst show_nat.simps) simp
  qed
qed

lemma two_digit_plain: "set (two_digit n) \<inter> {CHR '','', CHR ''/'', CHR '' '', CHR '':''} = {}"
  using show_nat_plain [of n] by (simp add: two_digit_def)

lemma replace_first_notin: "c \<notin> set a \<Longrightarrow> replace_first c r (a @ b) = a @ replace_first c r b"
  by (induction a) auto

lemma replace_all_append: "replace_all c r (a @ b) = replace_all c r a @ replace_all c r b"
  by (induction a) auto

lemma replace_all_notin: "c \<notin> set a \<Longrightarrow> replace_all c r a = a"
  by (induction a) auto

lemma fmtYMD_Montreal_Date: "fmtYMD_Montreal tz (Date t) = local_date (tz t)"
  by (simp add: fmtYMD_Montreal_def toLocaleString_year_def toLocaleString_month_def
      toLocaleString_day_def local_date_def)

lemma fmtISO_Montreal_Date: "fmtISO_Montreal tz (Date t) = local_date (tz t) @ ''T'' @ local_time (tz t)"
proof -
  define c where "c = tz t"
  have p: "x \<notin> set (show_nat n)" "x \<notin> set (two_digit n)"
    if "x \<in> {CHR '','', CHR ''/'', CHR '' '', CHR '':''}" for x n
    using that show_nat_plain [of n] two_digit_plain [of n] by auto
  have s1: "replace_first CHR '','' '''' (toLocaleString_full tz (Date t))
      = local_date c @ '' '' @ two_digit (hour c) @ '':'' @ two_digit (minute c) @ '':'' @ two_digit (second c)"
    by (simp add: toLocaleString_full_def Let_def local_date_def c_def replace_first_notin p)
  have s2: "replace_all CHR ''/'' ''-'' (local_date c @ '' '' @ two_digit (hour c) @ '':'' @ two_digit (minute c) @ '':'' @ two_digit (second c))
      = local_date c @ '' '' @ two_digit (hour c) @ '':'' @ two_digit (minute c) @ '':'' @ two_digit (second c)"
    by (rule replace_all_notin) (simp add: local_date_def p)
  have s3: "replace_first CHR '' '' ''T'' (local_date c @ '' '' @ two_digit (hour c) @ '':'' @ two_digit (minute c) @ '':'' @ two_digit (second c))
      = local_date c @ ''T'' @ two_digit (hour c) @ '':'' @ two_digit (minute c) @ '':'' @ two_digit (second c)"
    by (simp add: local_date_def replace_first_notin p)
  have s4: "replace_all CHR '':'' ''-'' (local_date c @ ''T'' @ two_digit (hour c) @ '':'' @ two_digit (minute c) @ '':'' @ two_digit (second c))
      = local_date c @ ''T'' @ local_time c"
    by (simp add: local_date_def local_time_def replace_all_append replace_all_notin p)
  have "fmtISO_Montreal tz (Date t) = local_date c @ ''T'' @ local_time c"
    unfolding fmtISO_Montreal_def Let_def s1 s2 s3 s4 ..
  then show ?thesis by (simp add: c_def)
qed

lemma example_fmt:
  "fmtYMD_Montreal (toronto example_platform) (Date t) = ''2025-12-23''"
  "fmtISO_Montreal (toronto example_platform) (Date t) = ''2025-12-23T03-15-30''"
  by (simp_all add: fmtYMD_Montreal_Date fmtISO_Montreal_Date local_date_def local_time_def
      example_platform_def example_civil_def two_digit_def show_nat.simps digit_def)

lemma parse_single_continuation: "parseFeedMeta [128] = Some (0, None)"
proof -
  have r0: "readVarint [128] (Fin 0) = (Fin 0, Fin 2)"
    by (simp add: readVarint_def readVarint_loop.simps u8_at_def band_def Number_small
        jsadd_exact del: jsadd.simps)
  have r2: "readVarint [128] (Fin 2) = (Fin 0, Fin 3)"
    by (simp add: readVarint_def readVarint_loop.simps u8_at_def band_def Number_small
        jsadd_exact del: jsadd.simps)
  have k: "fieldNo_of (Fin 0) = 0" "wireType_of (Fin 0) = 0"
    by (simp_all add: fieldNo_of_def wireType_of_def toInt32_def)
  have e: "parseFeedMeta_loop [128] (Fin 3) 0 None = Some (0, None)"
    by (rule parseFeedMeta_loop_at_end) (simp add: num_ge_def)
  show ?thesis
    unfolding parseFeedMeta_def
    by (subst parseFeedMeta_loop.simps) (simp add: r0 r2 k e skipField_def Let_def)
qed

lemma save_single_continuation:
  "saveRT example_digest example_platform empty_env ''stm'' 7 ''gtfsrt_trip_updates'' [128]
   = Some (Saved example_path, example_saved_env)"
  by (simp add: parse_single_continuation saveRT_def select_exists_def
      table_of_def empty_env_def example_fmt insert_raw_def log_entry_def feed_ts_text_def
      example_digest_def two_digit_def show_nat.simps digit_def Let_def
      example_path_def example_saved_env_def)
   (simp add: example_platform_def)

lemma parse_small_message: "parseFeedMeta [8, 1] = Some (0, None)"
proof -
  have r0: "readVarint [8, 1] (Fin 0) = (Fin 8, Fin (Suc 0))"
    by (simp add: readVarint_def readVarint_loop.simps u8_at_def band_def Number_small
        jsadd_exact del: jsadd.simps)
  have r1: "readVarint [8, 1] (Fin (Suc 0)) = (Fin (Suc 0), Fin 2)"
    by (simp add: readVarint_def readVarint_loop.simps u8_at_def band_def Number_small
        jsadd_exact del: jsadd.simps)
  have k: "fieldNo_of (Fin 8) = 1" "wireType_of (Fin 8) = 0"
    by (simp_all add: fieldNo_of_def wireType_of_def toInt32_def)
  have e: "parseFeedMeta_loop [8, 1] (Fin 2) 0 None = Some (0, None)"
    by (rule parseFeedMeta_loop_at_end) (simp add: num_ge_def)
  show ?thesis
    unfolding parseFeedMeta_def
    by (subst parseFeedMeta_loop.simps) (simp add: r0 r1 k e skipField_def Let_def)
qed

lemma save_small_message:
  "map_option fst (saveRT example_digest example_platform empty_env ''stm'' 7
      ''gtfsrt_vehicle_positions'' [8, 1])
   = Some (Saved ''gtfs-rt/stm/gtfsrt_vehicle_positions/dt=2025-12-23/gtfsrt_vehicle_positions_2025-12-23T03-15-30.pb'')"
  by (simp add: parse_small_message saveRT_def select_exists_def
      table_of_def empty_env_def example_fmt Let_def)

lemma set_r2_list:
  "set (r2_list bucket pfx) \<subseteq> {obj \<in> set bucket. take (length pfx) (obj_key obj) = pfx}"
proof
  fix obj assume "obj \<in> set (r2_list bucket pfx)"
  then have "obj \<in> set (sort_key obj_key
      (filter (\<lambda>obj. take (length pfx) (obj_key obj) = pfx) bucket))"
    unfolding r2_list_def by (rule in_set_takeD)
  then show "obj \<in> {obj \<in> set bucket. take (length pfx) (obj_key obj) = pfx}" by simp
qed

lemma r2_list_page: "length (r2_list bucket pfx) \<le> 1000"
  by (simp add: r2_list_def)

lemma r2_list_whole:
  assumes "length (filter (\<lambda>obj. take (length pfx) (obj_key obj) = pfx) bucket) \<le> 1000"
  shows "set (r2_list bucket pfx) = {obj \<in> set bucket. take (length pfx) (obj_key obj) = pfx}"
  using assms by (simp add: r2_list_def)

lemma set_listHotRTFiles:
  "set (listHotRTFiles tz tnow bucket provider feedKind hoursBack) =
     (\<lambda>obj. \<lparr>file_key = obj_key obj, file_uploaded = upload_time tnow obj\<rparr>) `
       {obj \<in> set (r2_list bucket (hot_prefix provider feedKind
                        (fmtYMD_Montreal tz (Date (getHoursAgo tnow hoursBack)))))
              \<union> set (r2_list bucket (hot_prefix provider feedKind (fmtYMD_Montreal tz (Date tnow)))).
          getHoursAgo tnow hoursBack \<le> upload_time tnow obj}"
  by (auto simp: listHotRTFiles_def Let_def)

lemma sort_key_first:
  assumes "xs \<noteq> []"
  shows "sort_key f xs ! 0 \<in> set xs \<and> (\<forall>x\<in>set xs. f (sort_key f xs ! 0) \<le> f x)"
proof -
  let ?ys = "sort_key f xs"
  have s: "set ?ys = set xs" by simp
  with assms have ne: "?ys \<noteq> []" by (metis set_empty)
  then obtain y ys where ys: "?ys = y # ys" by (cases ?ys) auto
  have "sorted (map f ?ys)" by (rule sorted_sort_key)
  then have "\<forall>x\<in>set ys. f y \<le> f x" unfolding ys by simp
  then have a: "\<forall>x\<in>set ?ys. f y \<le> f x" unfolding ys by simp
  have b: "y \<in> set ?ys" unfolding ys by simp
  have c: "?ys ! 0 = y" unfolding ys by simp
  from a b show ?thesis unfolding c s by blast
qed

lemma example_zone_dates:
  "fmtYMD_Montreal example_zone (Date 1766391330000) = ''2025-12-22''"
  "fmtYMD_Montreal example_zone (Date 1766477730000) = ''2025-12-23''"
  by (simp_all add: fmtYMD_Montreal_Date local_date_def example_zone_def two_digit_def
      show_nat.simps digit_def)

lemma readHotRTFile_listed:
  assumes "distinct (map obj_key bucket)" "obj \<in> set bucket"
  shows "readHotRTFile bucket (obj_key obj) = Some (obj_body obj)"
  using assms
proof (induction bucket)
  case Nil
  then show ?case by simp
next
  case (Cons a bucket)
  then show ?case by (auto simp: readHotRTFile_def image_iff)
qed

lemma Number_minus_60: "Number 18446744073709551556 = Fin 18446744073709551616"
proof -
  have "bitlen 18446744073709551556 \<le> 64" by (rule bitlen_less) simp
  moreover have "63 < bitlen 18446744073709551556" by (rule bitlen_ge) simp
  ultimately have b: "bitlen 18446744073709551556 - 53 = 11" by simp
  have r: "round53 18446744073709551556 = 18446744073709551616"
    unfolding round53_def Let_def b by simp
  have "(2::nat) ^ 64 < 2 ^ 1024" by (rule power_strict_increasing) simp_all
  then have "(18446744073709551616::nat) < 2 ^ 1024" by simp
  then show ?thesis unfolding Number_def Let_def r by (rule if_P)
qed

lemma early_event_encoding: "early_event = encode_fields [(1, Varint (2 ^ 64 - 60))]"
  by (simp add: early_event_def encode_fields_def varint.simps)

lemma replace_other_key:
  "f r \<noteq> k \<Longrightarrow> filter (\<lambda>x. f x = k) (map (\<lambda>x. if f x = f r then r else x) tbl)
     = filter (\<lambda>x. f x = k) tbl"
  by (induction tbl) simp_all

lemma replace_same_key:
  "f r \<in> f ` set tbl \<Longrightarrow>
   set (filter (\<lambda>x. f x = f r) (map (\<lambda>x. if f x = f r then r else x) tbl)) = {r}"
proof (induction tbl)
  case Nil
  then show ?case by simp
next
  case (Cons a tbl)
  show ?case
  proof (cases "f r \<in> f ` set tbl")
    case True
    with Cons.IH show ?thesis by auto
  next
    case False
    then have "filter (\<lambda>x. f x = f r) (map (\<lambda>x. if f x = f r then r else x) tbl) = []"
      by (auto simp: filter_empty_conv image_iff)
    moreover from False Cons.prems have "f a = f r" by auto
    ultimately show ?thesis by simp
  qed
qed

lemma replace_fixed:
  "\<forall>x\<in>set tbl. f x = f r \<longrightarrow> x = r \<Longrightarrow> map (\<lambda>x. if f x = f r then r else x) tbl = tbl"
  by (induction tbl) auto

lemma upsert_complete:
  assumes "key_complete r"
  shows "upsert r tbl =
     (if primary_key r \<in> primary_key ` set tbl
      then map (\<lambda>x. if primary_key x = primary_key r then r else x) tbl
      else tbl @ [r])"
proof -
  from assms have c: "conflicts r x = (primary_key x = primary_key r)" for x
    by (simp add: conflicts_def)
  have "(\<exists>x\<in>set tbl. primary_key x = primary_key r) = (primary_key r \<in> primary_key ` set tbl)"
    by (auto simp: image_iff intro: sym)
  then show ?thesis by (simp add: upsert_def c)
qed

lemma upsert_incomplete: "\<not> key_complete r \<Longrightarrow> upsert r tbl = tbl @ [r]"
  by (simp add: upsert_def conflicts_def)

lemma upsert_other_key:
  "primary_key s \<noteq> k \<Longrightarrow>
   filter (\<lambda>x. primary_key x = k) (upsert s tbl) = filter (\<lambda>x. primary_key x = k) tbl"
proof (cases "key_complete s")
  case True
  assume "primary_key s \<noteq> k"
  then show ?thesis
    by (cases "primary_key s \<in> primary_key ` set tbl")
       (simp_all add: upsert_complete [OF True] replace_other_key)
next
  case False
  assume "primary_key s \<noteq> k"
  then show ?thesis by (simp add: upsert_incomplete [OF False])
qed

lemma upsert_all_other_key:
  "k \<notin> primary_key ` set rows \<Longrightarrow>
   filter (\<lambda>x. primary_key x = k) (upsert_all rows tbl) = filter (\<lambda>x. primary_key x = k) tbl"
  unfolding upsert_all_def
proof (induction rows arbitrary: tbl)
  case Nil
  then show ?case by simp
next
  case (Cons s rows)
  then have "primary_key s \<noteq> k" "k \<notin> primary_key ` set rows" by auto
  with Cons.IH [of "upsert s tbl"] show ?case by (simp add: upsert_other_key)
qed

lemma upsert_same_key:
  assumes "key_complete r"
  shows "set (filter (\<lambda>x. primary_key x = primary_key r) (upsert r tbl)) = {r}"
proof (cases "primary_key r \<in> primary_key ` set tbl")
  case True
  then show ?thesis
    by (simp add: upsert_complete [OF assms] replace_same_key del: set_filter)
next
  case False
  then have "filter (\<lambda>x. primary_key x = primary_key r) tbl = []"
    by (auto simp: filter_empty_conv image_iff)
  with False show ?thesis by (simp add: upsert_complete [OF assms])
qed

lemma upsert_fixed:
  assumes "key_complete r"
    and "set (filter (\<lambda>x. primary_key x = primary_key r) tbl) = {r}"
  shows "upsert r tbl = tbl"
proof -
  from assms(2) have "r \<in> set (filter (\<lambda>x. primary_key x = primary_key r) tbl)" by simp
  then have m: "primary_key r \<in> primary_key ` set tbl" by auto
  have "\<forall>x\<in>set tbl. primary_key x = primary_key r \<longrightarrow> x = r"
  proof (intro ballI impI)
    fix x assume "x \<in> set tbl" "primary_key x = primary_key r"
    then have "x \<in> set (filter (\<lambda>x. primary_key x = primary_key r) tbl)" by simp
    with assms(2) show "x = r" by simp
  qed
  then have "map (\<lambda>x. if primary_key x = primary_key r then r else x) tbl = tbl"
    by (rule replace_fixed)
  with m show ?thesis by (simp add: upsert_complete [OF assms(1)])
qed

lemma upsert_all_holds_rows:
  "distinct (map primary_key rows) \<Longrightarrow> r \<in> set rows \<Longrightarrow> key_complete r \<Longrightarrow>
   set (filter (\<lambda>x. primary_key x = primary_key r) (upsert_all rows tbl)) = {r}"
proof (induction rows arbitrary: tbl)
  case Nil
  then show ?case by simp
next
  case (Cons s rows)
  have u: "upsert_all (s # rows) tbl = upsert_all rows (upsert s tbl)" by (simp add: upsert_all_def)
  show ?case
  proof (cases "r = s")
    case True
    from Cons.prems have "primary_key s \<notin> primary_key ` set rows" by simp
    then have "filter (\<lambda>x. primary_key x = primary_key s) (upsert_all rows (upsert s tbl))
        = filter (\<lambda>x. primary_key x = primary_key s) (upsert s tbl)"
      by (rule upsert_all_other_key)
    moreover from Cons.prems True have "key_complete s" by simp
    ultimately show ?thesis unfolding u True by (simp only: upsert_same_key)
  next
    case False
    with Cons.prems have "distinct (map primary_key rows)" "r \<in> set rows" "key_complete r"
      by simp_all
    then show ?thesis unfolding u by (rule Cons.IH)
  qed
qed

lemma upsert_all_fixed:
  "\<forall>r\<in>set rows. upsert r tbl = tbl \<Longrightarrow> upsert_all rows tbl = tbl"
  unfolding upsert_all_def by (induction rows) simp_all

lemma upsert_all_idempotent:
  assumes "distinct (map primary_key rows)" and "\<forall>r\<in>set rows. key_complete r"
  shows "upsert_all rows (upsert_all rows tbl) = upsert_all rows tbl"
proof (rule upsert_all_fixed, rule ballI)
  fix r assume r: "r \<in> set rows"
  with assms(2) have c: "key_complete r" by simp
  from assms(1) r c
  have "set (filter (\<lambda>x. primary_key x = primary_key r) (upsert_all rows tbl)) = {r}"
    by (rule upsert_all_holds_rows)
  with c show "upsert r (upsert_all rows tbl) = upsert_all rows tbl" by (rule upsert_fixed)
qed

lemma aggregate_rows_distinct: "distinct (map primary_key (aggregate_rows source date_text keyf obs))"
proof -
  have "map primary_key (aggregate_rows source date_text keyf obs)
      = map (\<lambda>k. (source, date_text, k)) (remdups (map keyf obs))"
    by (simp add: aggregate_rows_def primary_key_def bucket_of_def Let_def)
  moreover have "distinct (map (\<lambda>k. (source, date_text, k)) (remdups (map keyf obs)))"
    by (simp add: distinct_map inj_on_def)
  ultimately show ?thesis by simp
qed


lemma aggregate_rows_complete:
  assumes "\<forall>ob\<in>set obs. ob_route ob \<noteq> None \<and> ob_stop ob \<noteq> None \<and> ob_trip ob \<noteq> None"
    and "keyf = hourly_key \<or> keyf = daily_key"
  shows "\<forall>r\<in>set (aggregate_rows source date_text keyf obs). key_complete r"
  using assms
  by (auto simp: aggregate_rows_def bucket_of_def key_complete_def hourly_key_def daily_key_def
      Let_def)

text \<open>
  When every entity of the cold snapshots carries its route, its stop and its trip, no key
  column is \<open>NULL\<close> and a second run leaves both stores as the first run left them.
\<close>

lemma aggregate_idempotent_complete_keys:
  assumes "\<forall>ob\<in>set (concat (map sn_entities (cold_snapshots hot_window run_time snaps))).
             ob_route ob \<noteq> None \<and> ob_stop ob \<noteq> None \<and> ob_trip ob \<noteq> None"
  shows "aggregate source date_text hot_window run_time snaps
           (aggregate source date_text hot_window run_time snaps st)
         = aggregate source date_text hot_window run_time snaps st"
proof -
  let ?obs = "concat (map sn_entities (cold_snapshots hot_window run_time snaps))"
  have h: "\<forall>r\<in>set (aggregate_rows source date_text hourly_key ?obs). key_complete r"
    using assms by (intro aggregate_rows_complete) simp_all
  have d: "\<forall>r\<in>set (aggregate_rows source date_text daily_key ?obs). key_complete r"
    using assms by (intro aggregate_rows_complete) simp_all
  show ?thesis
    by (simp add: aggregate_def Let_def upsert_all_idempotent [OF aggregate_rows_distinct h]
        upsert_all_idempotent [OF aggregate_rows_distinct d])
qed

lemma historical_failure_is_500:
  "fetch_historical parseInt db provider_param (Some ''gtfsrt_alerts'') (Some ''2025-12-22'')
       hour_param routeId stopId
     = HistoricalError ''tableName is not defined'' 500"
  by (simp add: fetch_historical_def handleHistorical_def queryD1Historical_def
      query_failure_def error_message_def or_default_def Let_def)

lemma historical_missing_table_is_500:
  "fetch_historical parseInt (never_aggregated\<lparr>rt_delays_daily := None\<rparr>) None None
       (Some ''2025-12-22'') None None None
     = HistoricalError ''tableName is not defined'' 500"
  by (simp add: fetch_historical_def handleHistorical_def queryD1Historical_def all_results_def
      query_failure_def error_message_def or_default_def truthy_def never_aggregated_def Let_def)

lemma parse_header_only:
  assumes "t < 128"
  shows "parseFeedMessage utf8 [10, 2, 24, word_of_nat t]
     = Some (Inr \<lparr>header_timestamp = Val (Fin t), feed_entity = []\<rparr>)"
proof -
  let ?u = "[10, 2, 24, word_of_nat t] :: byte list"
  from assms have b: "band (Some (word_of_nat t)) 127 = t" "band (Some (word_of_nat t)) 128 = 0"
    by (simp_all add: band_small)
  have r0: "readVarint ?u (Fin 0) = (Fin 10, Fin (Suc 0))"
    by (simp add: readVarint_def readVarint_loop.simps u8_at_def band_def Number_small
        jsadd_exact del: jsadd.simps)
  have r1: "readVarint ?u (Fin (Suc 0)) = (Fin 2, Fin 2)"
    by (simp add: readVarint_def readVarint_loop.simps u8_at_def band_def Number_small
        jsadd_exact del: jsadd.simps)
  have r2: "readVarint ?u (Fin 2) = (Fin 24, Fin 3)"
    by (simp add: readVarint_def readVarint_loop.simps u8_at_def band_def Number_small
        jsadd_exact del: jsadd.simps)
  have r3: "readVarint ?u (Fin 3) = (Fin t, Fin 4)"
    using assms
    by (simp add: readVarint_def readVarint_loop.simps u8_at_def b Number_small
        jsadd_exact del: jsadd.simps)
  have k: "fieldNo_of (Fin 10) = 1" "wireType_of (Fin 10) = 2"
      "fieldNo_of (Fin 24) = 3" "wireType_of (Fin 24) = 0"
    by (simp_all add: fieldNo_of_def wireType_of_def toInt32_def)
  have e: "jsadd (Fin 2) (Fin 2) = Fin 4" by (simp add: jsadd_exact del: jsadd.simps)
  have h1: "parseHeaderTimestamp_loop ?u (Fin 4) (Fin 4) (Some (Fin t)) = Some (Some (Fin t))"
    by (subst parseHeaderTimestamp_loop.simps) simp
  have h: "parseHeaderTimestamp ?u (Fin 2) (Fin 4) = Some (Some (Fin t))"
    unfolding parseHeaderTimestamp_def
    by (subst parseHeaderTimestamp_loop.simps) (simp add: r2 r3 k h1 Let_def)
  have f: "parseFeedMessage_loop utf8 ?u (Fin 4) \<lparr>header_timestamp = Val (Fin t), feed_entity = []\<rparr>
      = Some (Inr \<lparr>header_timestamp = Val (Fin t), feed_entity = []\<rparr>)"
    by (subst parseFeedMessage_loop.simps) simp
  show ?thesis
    unfolding parseFeedMessage_def
    by (subst parseFeedMessage_loop.simps)
       (simp add: r0 r1 k e h f js_of_option_def Let_def del: jsadd.simps)
qed

lemma toronto_march_dates:
  "fmtYMD_Montreal toronto_march_2025 (Date 1741493100000) = ''2025-03-08''"
  "fmtYMD_Montreal toronto_march_2025 (Date 1741579500000) = ''2025-03-10''"
  "fmtYMD_Montreal toronto_march_2025 (Date 1741578300000) = ''2025-03-09''"
  by (simp_all add: fmtYMD_Montreal_Date local_date_def toronto_march_2025_def two_digit_def
      show_nat.simps digit_def Let_def)

text \<open>
  What \<open>saveRT\<close> keeps of the deduplication: a save whose fingerprint is already stored for
  the provider in the table of the feed kind returns the skip outcome and leaves the
  bindings unchanged; from a store with unique (provider, fingerprint) pairs per table, and
  for a blob on which \<open>parseFeedMeta\<close> returns, a save returns, keeps the pairs unique, leaves
  exactly one row with this provider and fingerprint, and a second save of the same bytes
  is skipped without a write.
\<close>

lemma saveRT_dedup_when_decoded:
  "(select_exists (table_of kind e) pkey (sha ab) \<longrightarrow>
      saveRT sha pf e pkey fid kind ab = Some (Skipped, e))
   \<and> (unique_fingerprints e \<and> parseFeedMeta ab \<noteq> None \<longrightarrow>
       (\<exists>r1 e1. saveRT sha pf e pkey fid kind ab = Some (r1, e1)
          \<and> unique_fingerprints e1
          \<and> length (snapshots_of e1 kind pkey (sha ab)) = 1
          \<and> saveRT sha pf' e1 pkey fid' kind ab = Some (Skipped, e1)))"
proof (intro conjI impI)
  assume "select_exists (table_of kind e) pkey (sha ab)"
  then show "saveRT sha pf e pkey fid kind ab = Some (Skipped, e)" by (rule saveRT_skips)
next
  assume a: "unique_fingerprints e \<and> parseFeedMeta ab \<noteq> None"
  then obtain c h where p: "parseFeedMeta ab = Some (c, h)" by auto
  let ?f = "\<lambda>r. provider_key r = pkey \<and> hash_sha256 r = sha ab"
  show "\<exists>r1 e1. saveRT sha pf e pkey fid kind ab = Some (r1, e1)
          \<and> unique_fingerprints e1
          \<and> length (snapshots_of e1 kind pkey (sha ab)) = 1
          \<and> saveRT sha pf' e1 pkey fid' kind ab = Some (Skipped, e1)"
  proof (cases "select_exists (table_of kind e) pkey (sha ab)")
    case True
    then have s: "saveRT sha pf q pkey i kind ab = Some (Skipped, e)" if "q = e" for pf q i
      using that by (simp add: saveRT_skips)
    from a have d: "distinct (map (\<lambda>r. (provider_key r, hash_sha256 r)) (table_of kind e))"
      by (simp add: unique_fingerprints_def table_of_def)
    have "length (filter (\<lambda>r. (provider_key r, hash_sha256 r) = (pkey, sha ab)) (table_of kind e)) \<le> 1"
      using d by (rule distinct_key_filter)
    then have "length (filter ?f (table_of kind e)) \<le> 1" by simp
    moreover from True have "filter ?f (table_of kind e) \<noteq> []" by (simp add: select_exists_def)
    ultimately have "length (snapshots_of e kind pkey (sha ab)) = 1"
      by (cases "filter ?f (table_of kind e)") (simp_all add: snapshots_of_def)
    with a s show ?thesis by auto
  next
    case False
    from saveRT_new [of kind e pkey sha ab c h pf fid, OF False p] obtain path e1 where
      s: "saveRT sha pf e pkey fid kind ab = Some (Saved path, e1)"
      and e1: "e1 = log_entry pf (insert_raw kind
           \<lparr>provider_key = pkey, feed_id = fid, feed_ts = feed_ts_text (toronto pf) h,
            ingested_at = sql_now_insert pf, hash_sha256 = sha ab, entity_count = Some c\<rparr>
           (e\<lparr>R2 := (R2 e)(path \<mapsto> ab)\<rparr>)) ''INFO'' (''Saved '' @ path) (Some pkey) (Some fid)
           (Some \<lparr>r2_key = path, bytes = length ab, detail_entity_count = c,
                  feed_ts_local = feed_ts_text (toronto pf) h\<rparr>)" by blast
    have u: "unique_fingerprints e1"
      unfolding e1 using a False by (simp add: unique_insert)
    have t: "table_of kind e1 = table_of kind e @
        [\<lparr>provider_key = pkey, feed_id = fid, feed_ts = feed_ts_text (toronto pf) h,
          ingested_at = sql_now_insert pf, hash_sha256 = sha ab, entity_count = Some c\<rparr>]"
      unfolding e1 by (simp add: table_of_insert_raw)
    from False have "filter ?f (table_of kind e) = []" by (simp add: select_exists_def)
    then have n: "length (snapshots_of e1 kind pkey (sha ab)) = 1"
      by (simp add: snapshots_of_def t)
    have "select_exists (table_of kind e1) pkey (sha ab)"
      by (simp add: select_exists_def t)
    then have "saveRT sha pf' e1 pkey fid' kind ab = Some (Skipped, e1)" by (rule saveRT_skips)
    with s u n show ?thesis by blast
  qed
qed

text \<open>
  What \<open>handleCurrentTripUpdates\<close> does with a non-empty selection: it fetches exactly one
  object of the bucket, one of the selection than which the selection has none more
  recent, and its answer is computed from the decoding of that object alone, the route and
  stop filters being applied to the decoded entities.
\<close>

lemma current_serves_newest_listed:
  assumes d: "distinct (map obj_key bucket)"
    and ne: "listHotRTFiles tz tnow bucket (or_default provider_param ''stm'')
               ''gtfsrt_trip_updates'' 24 \<noteq> []"
  shows "\<exists>obj\<in>set bucket.
      \<lparr>file_key = obj_key obj, file_uploaded = upload_time tnow obj\<rparr>
        \<in> set (listHotRTFiles tz tnow bucket (or_default provider_param ''stm'')
                 ''gtfsrt_trip_updates'' 24)
      \<and> (\<forall>f\<in>set (listHotRTFiles tz tnow bucket (or_default provider_param ''stm'')
                     ''gtfsrt_trip_updates'' 24). file_uploaded f \<le> upload_time tnow obj)
      \<and> handleCurrentTripUpdates utf8 tz tnow bucket provider_param routeId stopId
          = map_option
              (\<lambda>r. (case r of Inl err \<Rightarrow> Inl err
                     | Inr feed \<Rightarrow> Inr (TripUpdates (trip_update_rows feed routeId stopId)
                                          (header_timestamp feed)),
                    [obj_key obj]))
              (parseFeedMessage utf8 (obj_body obj))"
proof -
  define provider where "provider = or_default provider_param ''stm''"
  define files where "files = listHotRTFiles tz tnow bucket provider ''gtfsrt_trip_updates'' 24"
  define unsorted where "unsorted = concat (map (\<lambda>date.
        map (\<lambda>obj. \<lparr>file_key = obj_key obj, file_uploaded = upload_time tnow obj\<rparr>)
          (filter (\<lambda>obj. upload_time tnow obj \<ge> getHoursAgo tnow 24)
             (r2_list bucket (hot_prefix provider ''gtfsrt_trip_updates'' date))))
        [fmtYMD_Montreal tz (Date (getHoursAgo tnow 24)), fmtYMD_Montreal tz (Date tnow)])"
  have fs: "files = sort_key (\<lambda>f. - file_uploaded f) unsorted"
    by (simp add: files_def listHotRTFiles_def unsorted_def Let_def)
  from ne have "unsorted \<noteq> []" unfolding provider_def [symmetric] files_def [symmetric] fs
    by auto
  from sort_key_first [OF this, of "\<lambda>f. - file_uploaded f"]
  have l: "files ! 0 \<in> set unsorted" "\<forall>f\<in>set unsorted. file_uploaded f \<le> file_uploaded (files ! 0)"
    unfolding fs by auto
  have su: "set files = set unsorted" unfolding fs by simp
  from l(1) obtain obj where ol: "obj \<in> set (r2_list bucket (hot_prefix provider ''gtfsrt_trip_updates''
          (fmtYMD_Montreal tz (Date (getHoursAgo tnow 24)))))
        \<union> set (r2_list bucket (hot_prefix provider ''gtfsrt_trip_updates''
          (fmtYMD_Montreal tz (Date tnow))))"
    and o2: "files ! 0 = \<lparr>file_key = obj_key obj, file_uploaded = upload_time tnow obj\<rparr>"
    unfolding unsorted_def by auto
  from ol set_r2_list have o1: "obj \<in> set bucket" by blast
  note o = o1 o2
  have rd: "readHotRTFile bucket (file_key (files ! 0)) = Some (obj_body obj)"
    using readHotRTFile_listed [OF d o(1)] o(2) by simp
  have fne: "length files \<noteq> 0" using ne by (simp add: files_def provider_def)
  have h: "handleCurrentTripUpdates utf8 tz tnow bucket provider_param routeId stopId
          = map_option
              (\<lambda>r. (case r of Inl err \<Rightarrow> Inl err
                     | Inr feed \<Rightarrow> Inr (TripUpdates (trip_update_rows feed routeId stopId)
                                          (header_timestamp feed)),
                    [obj_key obj]))
              (parseFeedMessage utf8 (obj_body obj))"
    unfolding handleCurrentTripUpdates_def Let_def provider_def [symmetric] files_def [symmetric]
    using fne rd o(2)
    by (cases "parseFeedMessage utf8 (obj_body obj)") (auto split: sum.splits)
  have m: "\<lparr>file_key = obj_key obj, file_uploaded = upload_time tnow obj\<rparr> \<in> set files"
    using l(1) o(2) su by simp
  have mx: "\<forall>f\<in>set files. file_uploaded f \<le> upload_time tnow obj"
    using l(2) o(2) su by simp
  from o(1) m mx h show ?thesis
    unfolding files_def provider_def by blast
qed

section \<open>The claims\<close>

text \<open>
  Claim C1, as the code has it. The reader has no error of its own: a read past the end of
  the buffer yields \<open>undefined\<close>, whose bits are 0. So for every buffer made of valid fields
  followed by a varint cut off by the end of the buffer (fewer than \<open>2^53 - 2\<close> bytes),
  \<open>parseFeedMeta\<close> returns a result instead of failing, and \<open>saveRT\<close>, for a fingerprint
  not yet stored, writes the blob and appends the row.
\<close>

theorem truncated_varint_decoded_and_stored:
  assumes "list_all valid_field fs" and "truncated_varint t"
    and "length (encode_fields fs) + length t + 2 < 2 ^ 53"
    and "\<not> select_exists (table_of kind e) pkey (sha (encode_fields fs @ t))"
  shows "\<exists>c ts path e'.
      parseFeedMeta (encode_fields fs @ t) = Some (c, ts)
      \<and> saveRT sha pf e pkey fid kind (encode_fields fs @ t) = Some (Saved path, e')
      \<and> R2 e' path = Some (encode_fields fs @ t)
      \<and> table_of kind e' = table_of kind e @
           [\<lparr>provider_key = pkey, feed_id = fid, feed_ts = feed_ts_text (toronto pf) ts,
             ingested_at = sql_now_insert pf, hash_sha256 = sha (encode_fields fs @ t),
             entity_count = Some c\<rparr>]"
proof -
  from parseFeedMeta_truncated [OF assms(1-3)] obtain c ts where
    p: "parseFeedMeta (encode_fields fs @ t) = Some (c, ts)" by blast
  from saveRT_new [of kind e pkey sha "encode_fields fs @ t" c ts pf fid, OF assms(4) p]
  obtain path e' where s: "saveRT sha pf e pkey fid kind (encode_fields fs @ t) = Some (Saved path, e')"
    and e': "e' = log_entry pf (insert_raw kind
           \<lparr>provider_key = pkey, feed_id = fid, feed_ts = feed_ts_text (toronto pf) ts,
            ingested_at = sql_now_insert pf, hash_sha256 = sha (encode_fields fs @ t),
            entity_count = Some c\<rparr>
           (e\<lparr>R2 := (R2 e)(path \<mapsto> encode_fields fs @ t)\<rparr>)) ''INFO'' (''Saved '' @ path)
           (Some pkey) (Some fid)
           (Some \<lparr>r2_key = path, bytes = length (encode_fields fs @ t), detail_entity_count = c,
                  feed_ts_local = feed_ts_text (toronto pf) ts\<rparr>)" by blast
  have "R2 e' path = Some (encode_fields fs @ t)"
    unfolding e' by (simp add: log_entry_def insert_raw_def)
  moreover have "table_of kind e' = table_of kind e @
           [\<lparr>provider_key = pkey, feed_id = fid, feed_ts = feed_ts_text (toronto pf) ts,
             ingested_at = sql_now_insert pf, hash_sha256 = sha (encode_fields fs @ t),
             entity_count = Some c\<rparr>]"
    unfolding e' by (simp add: table_of_insert_raw)
  ultimately show ?thesis using p s by blast
qed

theorem truncated_varint_decoded_and_stored_witness:
  "list_all valid_field [(2, LenDelim [1])] \<and> truncated_varint [146]
   \<and> length (encode_fields [(2, LenDelim [1])]) + length [146 :: byte] + 2 < 2 ^ 53
   \<and> \<not> select_exists (table_of ''gtfsrt_trip_updates'' empty_env) ''stm''
         (example_digest (encode_fields [(2, LenDelim [1])] @ [146]))
   \<and> (\<exists>c ts path e'.
      parseFeedMeta (encode_fields [(2, LenDelim [1])] @ [146]) = Some (c, ts)
      \<and> saveRT example_digest example_platform empty_env ''stm'' 7 ''gtfsrt_trip_updates''
            (encode_fields [(2, LenDelim [1])] @ [146]) = Some (Saved path, e')
      \<and> R2 e' path = Some (encode_fields [(2, LenDelim [1])] @ [146])
      \<and> table_of ''gtfsrt_trip_updates'' e' = table_of ''gtfsrt_trip_updates'' empty_env @
           [\<lparr>provider_key = ''stm'', feed_id = 7,
             feed_ts = feed_ts_text (toronto example_platform) ts,
             ingested_at = sql_now_insert example_platform,
             hash_sha256 = example_digest (encode_fields [(2, LenDelim [1])] @ [146]),
             entity_count = Some c\<rparr>])"
proof -
  have a: "list_all valid_field [(2, LenDelim [1])]" by simp
  have b: "truncated_varint [146]" by (simp add: truncated_varint_def)
  have c: "length (encode_fields [(2, LenDelim [1])]) + length [146 :: byte] + 2 < 2 ^ 53"
    by (simp add: encode_fields_def varint.simps)
  have d: "\<not> select_exists (table_of ''gtfsrt_trip_updates'' empty_env) ''stm''
         (example_digest (encode_fields [(2, LenDelim [1])] @ [146]))"
    by (simp add: select_exists_def table_of_def empty_env_def)
  from truncated_varint_decoded_and_stored
    [of "[(2, LenDelim [1])]" "[146]" "''gtfsrt_trip_updates''" empty_env "''stm''"
        example_digest example_platform 7, OF a b c d] a b c d
  show ?thesis by blast
qed

theorem truncated_varint_counterexample:
  "truncated_varint [128]
   \<and> parseFeedMeta [128] = Some (0, None)
   \<and> saveRT example_digest example_platform empty_env ''stm'' 7 ''gtfsrt_trip_updates'' [128]
      = Some (Saved example_path, example_saved_env)
   \<and> R2 example_saved_env example_path = Some [128]
   \<and> map hash_sha256 (rt_trip_updates_raw example_saved_env) = [example_digest [128]]"
  unfolding save_single_continuation
  by (simp add: truncated_varint_def parse_single_continuation example_saved_env_def
      example_digest_def two_digit_def show_nat.simps digit_def)

text \<open>
  Claim C2. For every valid envelope byte stream (the encoding of a list of tagged
  records of any wire type, with field numbers below \<open>2^29\<close>, in a buffer of fewer than
  \<open>2^53\<close> bytes), \<open>parseFeedMeta\<close> returns, and the entity count it returns is the number
  of top-level length-delimited fields numbered 2, whatever other fields lie between them.
\<close>

theorem entity_count_valid_stream:
  assumes "list_all valid_field fs" and "length (encode_fields fs) < 2 ^ 53"
  shows "\<exists>ts. parseFeedMeta (encode_fields fs) = Some (length (filter is_entity fs), ts)"
  using parseFeedMeta_loop_fields [of fs "[]" "[]" 0 None] assms
  by (simp add: parseFeedMeta_def parseFeedMeta_loop_at_end num_ge_def)

theorem entity_count_valid_stream_witness:
  "list_all valid_field
     [(1, LenDelim [24, 5]), (7, Varint 300), (2, LenDelim []), (9, Fixed32 [1, 2, 3, 4]),
      (2, LenDelim [7]), (3, Fixed64 [1, 2, 3, 4, 5, 6, 7, 8]), (2, Varint 1), (2, TagOnly 3)]
   \<and> length (encode_fields
     [(1, LenDelim [24, 5]), (7, Varint 300), (2, LenDelim []), (9, Fixed32 [1, 2, 3, 4]),
      (2, LenDelim [7]), (3, Fixed64 [1, 2, 3, 4, 5, 6, 7, 8]), (2, Varint 1), (2, TagOnly 3)]) < 2 ^ 53
   \<and> (\<exists>ts. parseFeedMeta (encode_fields
     [(1, LenDelim [24, 5]), (7, Varint 300), (2, LenDelim []), (9, Fixed32 [1, 2, 3, 4]),
      (2, LenDelim [7]), (3, Fixed64 [1, 2, 3, 4, 5, 6, 7, 8]), (2, Varint 1), (2, TagOnly 3)]) = Some (2, ts))"
  using entity_count_valid_stream
    [of "[(1, LenDelim [24, 5]), (7, Varint 300), (2, LenDelim []), (9, Fixed32 [1, 2, 3, 4]),
      (2, LenDelim [7]), (3, Fixed64 [1, 2, 3, 4, 5, 6, 7, 8]), (2, Varint 1), (2, TagOnly 3)]"]
  by (simp add: encode_fields_def varint.simps) (simp add: numeral_2_eq_2)

text \<open>
  Claim C3. The delay of a stop time event is read as an unsigned varint and converted
  with \<open>Number\<close>: the encoding of the delay \<open>-60\<close> decodes to \<open>18446744073709551616\<close>, not to
  \<open>-60\<close>. A delay absent from the bytes is \<open>null\<close> and a delay of 0 is the number 0.
\<close>

theorem negative_delay_decodes_unsigned:
  "parseStopTimeEvent early_event (Fin 0) (Fin 11)
     = Some \<lparr>delay = Val (Fin 18446744073709551616), time = Null\<rparr>
   \<and> parseStopTimeEvent [] (Fin 0) (Fin 0) = Some \<lparr>delay = Null, time = Null\<rparr>
   \<and> parseStopTimeEvent [8, 0] (Fin 0) (Fin 2) = Some \<lparr>delay = Val (Fin 0), time = Null\<rparr>"
proof -
  have k: "fieldNo_of (Fin 8) = 1" "wireType_of (Fin 8) = 0"
    by (simp_all add: fieldNo_of_def wireType_of_def toInt32_def)
  have r0: "readVarint early_event (Fin 0) = (Fin 8, Fin (Suc 0))"
    by (simp add: early_event_def readVarint_def readVarint_loop.simps u8_at_def band_def
        Number_small jsadd_exact del: jsadd.simps)
  have r1: "readVarint early_event (Fin (Suc 0)) = (Fin 18446744073709551616, Fin 11)"
    by (simp add: early_event_def readVarint_def readVarint_loop.simps u8_at_def band_def
        Number_minus_60 jsadd_exact del: jsadd.simps)
  have e: "parseStopTimeEvent_loop u8 (Fin n) (Fin n) ste = Some ste" for u8 n ste
    by (subst parseStopTimeEvent_loop.simps) simp
  have 1: "parseStopTimeEvent early_event (Fin 0) (Fin 11)
     = Some \<lparr>delay = Val (Fin 18446744073709551616), time = Null\<rparr>"
    unfolding parseStopTimeEvent_def
    by (subst parseStopTimeEvent_loop.simps) (simp add: r0 r1 k e Let_def)
  have 2: "parseStopTimeEvent [] (Fin 0) (Fin 0) = Some \<lparr>delay = Null, time = Null\<rparr>"
    unfolding parseStopTimeEvent_def by (rule e)
  have z0: "readVarint [8, 0] (Fin 0) = (Fin 8, Fin (Suc 0))"
    by (simp add: readVarint_def readVarint_loop.simps u8_at_def band_def
        Number_small jsadd_exact del: jsadd.simps)
  have z1: "readVarint [8, 0] (Fin (Suc 0)) = (Fin 0, Fin 2)"
    by (simp add: readVarint_def readVarint_loop.simps u8_at_def band_def
        Number_small jsadd_exact del: jsadd.simps)
  have 3: "parseStopTimeEvent [8, 0] (Fin 0) (Fin 2) = Some \<lparr>delay = Val (Fin 0), time = Null\<rparr>"
    unfolding parseStopTimeEvent_def
    by (subst parseStopTimeEvent_loop.simps) (simp add: z0 z1 k e Let_def)
  from 1 2 3 show ?thesis by blast
qed


text \<open>
  Claim C5, as the code has it. The selection keeps an object when its timestamp is
  \<open>>= threshold\<close>: an object that one of the two list calls returns (the prefix of the date
  of the boundary instant and the prefix of the date of the query instant, both in
  \<open>America/Toronto\<close>) is in the hot selection exactly when its timestamp is at or after the
  instant \<open>hoursBack\<close> hours before the query, so a listed snapshot exactly on the boundary
  is hot.
\<close>

theorem hot_window_boundary:
  assumes "obj \<in> set (r2_list bucket (hot_prefix provider feedKind
                        (fmtYMD_Montreal tz (Date (getHoursAgo tnow hoursBack)))))
         \<or> obj \<in> set (r2_list bucket (hot_prefix provider feedKind
                        (fmtYMD_Montreal tz (Date tnow))))"
  shows "(\<lparr>file_key = obj_key obj, file_uploaded = upload_time tnow obj\<rparr>
            \<in> set (listHotRTFiles tz tnow bucket provider feedKind hoursBack))
         = (tnow - hoursBack * 3600000 \<le> upload_time tnow obj)"
  unfolding set_listHotRTFiles using assms by (auto simp: getHoursAgo_def)

theorem hot_window_boundary_witness:
  "(boundary_object \<in> set (r2_list [boundary_object] (hot_prefix ''stm'' ''gtfsrt_trip_updates''
          (fmtYMD_Montreal example_zone (Date (getHoursAgo 1766477730000 24)))))
     \<or> boundary_object \<in> set (r2_list [boundary_object] (hot_prefix ''stm'' ''gtfsrt_trip_updates''
          (fmtYMD_Montreal example_zone (Date 1766477730000)))))
   \<and> ((\<lparr>file_key = obj_key boundary_object, file_uploaded = upload_time 1766477730000 boundary_object\<rparr>
            \<in> set (listHotRTFiles example_zone 1766477730000 [boundary_object] ''stm''
                      ''gtfsrt_trip_updates'' 24))
         = (1766477730000 - 24 * 3600000 \<le> upload_time 1766477730000 boundary_object))"
proof -
  have b: "boundary_object \<in> set (r2_list [boundary_object] (hot_prefix ''stm'' ''gtfsrt_trip_updates''
          (fmtYMD_Montreal example_zone (Date (getHoursAgo 1766477730000 24)))))
     \<or> boundary_object \<in> set (r2_list [boundary_object] (hot_prefix ''stm'' ''gtfsrt_trip_updates''
          (fmtYMD_Montreal example_zone (Date 1766477730000))))"
    by (simp add: getHoursAgo_def example_zone_dates hot_prefix_def boundary_object_def r2_list_def)
  from hot_window_boundary [OF b] b show ?thesis by blast
qed

theorem hot_window_boundary_counterexample:
  "upload_time 1766477730000 boundary_object = 1766477730000 - 24 * 3600000
   \<and> listHotRTFiles example_zone 1766477730000 [boundary_object] ''stm'' ''gtfsrt_trip_updates'' 24
     = [\<lparr>file_key = obj_key boundary_object, file_uploaded = 1766391330000\<rparr>]"
  by (simp add: listHotRTFiles_def getHoursAgo_def example_zone_dates r2_list_def hot_prefix_def
      upload_time_def boundary_object_def Let_def)

text \<open>
  Claim C6, where the code departs from it. On 2025-03-10 at 00:05:00 in Montreal (04:05:00
  UTC), the day after the clocks went forward, the instant 24 hours earlier falls on
  2025-03-08 at 23:05:00, so the two prefixes listed are those of the 8th and of the 10th.
  The snapshot saved on the 9th at 23:45:00, twenty minutes before the request and inside
  the hot window, lies under the prefix of the 9th and is never listed: the request
  fetches and decodes the snapshot saved on the 8th at 23:10:00, and answers from it.
\<close>

theorem current_skips_fresh_snapshot:
  "getHoursAgo 1741579500000 24 \<le> upload_time 1741579500000 fresh_snapshot
   \<and> upload_time 1741579500000 fresh_snapshot \<le> 1741579500000
   \<and> upload_time 1741579500000 stale_snapshot < upload_time 1741579500000 fresh_snapshot
   \<and> handleCurrentTripUpdates utf8 toronto_march_2025 1741579500000
        [stale_snapshot, fresh_snapshot] None None None
     = Some (Inr (TripUpdates [] (Val (Fin 5))), [obj_key stale_snapshot])"
proof -
  have t: "getHoursAgo 1741579500000 24 = 1741493100000" by (simp add: getHoursAgo_def)
  have f: "listHotRTFiles toronto_march_2025 1741579500000 [stale_snapshot, fresh_snapshot]
      ''stm'' ''gtfsrt_trip_updates'' 24
    = [\<lparr>file_key = obj_key stale_snapshot, file_uploaded = 1741493400000\<rparr>]"
    by (simp add: listHotRTFiles_def t toronto_march_dates r2_list_def hot_prefix_def
        upload_time_def stale_snapshot_def fresh_snapshot_def Let_def)
  have r: "readHotRTFile [stale_snapshot, fresh_snapshot] (obj_key stale_snapshot)
      = Some [10, 2, 24, 5]"
    by (simp add: readHotRTFile_def stale_snapshot_def)
  have p: "parseFeedMessage utf8 [10, 2, 24, 5]
      = Some (Inr \<lparr>header_timestamp = Val (Fin 5), feed_entity = []\<rparr>)"
    using parse_header_only [of 5 utf8] by simp
  have h: "handleCurrentTripUpdates utf8 toronto_march_2025 1741579500000
        [stale_snapshot, fresh_snapshot] None None None
     = Some (Inr (TripUpdates [] (Val (Fin 5))), [obj_key stale_snapshot])"
    by (simp add: handleCurrentTripUpdates_def or_default_def f r p trip_update_rows_def Let_def)
  have u: "getHoursAgo 1741579500000 24 \<le> upload_time 1741579500000 fresh_snapshot
     \<and> upload_time 1741579500000 fresh_snapshot \<le> 1741579500000
     \<and> upload_time 1741579500000 stale_snapshot < upload_time 1741579500000 fresh_snapshot"
    by (simp add: t upload_time_def fresh_snapshot_def stale_snapshot_def)
  from u h show ?thesis by simp
qed

text \<open>
  Claim C7, as the code has it. A historical query with a date whose statement D1 accepts
  answers 404 \<open>Historical data not found\<close> exactly when the statement yields no row, and
  otherwise 200 with the rows and their count. The answer is a function of the rows the
  statement yields: nothing in it tells a partition that was never aggregated from one
  that was aggregated and has no matching row.
\<close>

theorem historical_not_found_iff_no_rows:
  assumes "date_param = Some date_text" and "date_text \<noteq> []"
    and "queryD1Historical db (or_default provider_param ''stm'')
           (or_default feed_kind_param ''gtfsrt_trip_updates'') date_text
           (if truthy hour_param then Hourly else Daily)
           (case hour_param of None \<Rightarrow> None
            | Some h \<Rightarrow> if h = [] then None else Some (parseInt h)) routeId stopId
         = Inr rows"
  shows "fetch_historical parseInt db provider_param feed_kind_param date_param hour_param
           routeId stopId
     = (if rows = [] then HistoricalError ''Historical data not found'' 404
        else HistoricalData (if truthy hour_param then Hourly else Daily) date_text
               (if truthy hour_param then hour_param else None)
               (or_default feed_kind_param ''gtfsrt_trip_updates'') (length rows) rows)"
  using assms by (simp add: fetch_historical_def handleHistorical_def Let_def)

theorem historical_not_found_iff_no_rows_witness:
  "Some ''2025-12-22'' = Some ''2025-12-22'' \<and> ''2025-12-22'' \<noteq> []
   \<and> queryD1Historical aggregated_day (or_default None ''stm'')
           (or_default None ''gtfsrt_trip_updates'') ''2025-12-22''
           (if truthy (Some ''6'') then Hourly else Daily)
           (case Some ''6'' of None \<Rightarrow> None
            | Some h \<Rightarrow> if h = [] then None else Some (digit_parseInt h)) None None
         = Inr [DelayRow
             \<lparr>d_provider_key = ''stm'', d_date = ''2025-12-22'', d_hour = Some 6,
              d_route_id = Some ''24'', d_stop_id = Some ''51234'', d_trip_id = None,
              avg_arrival_delay = Some 45, max_arrival_delay = Some 120,
              min_arrival_delay = Some (- 30), avg_departure_delay = None,
              max_departure_delay = None, min_departure_delay = None,
              trip_count = Some 3, route_count = Some 1, stop_count = Some 1\<rparr>]
   \<and> fetch_historical digit_parseInt aggregated_day None None (Some ''2025-12-22'') (Some ''6'')
        None None
     = HistoricalData Hourly ''2025-12-22'' (Some ''6'') ''gtfsrt_trip_updates'' 1
         [DelayRow
             \<lparr>d_provider_key = ''stm'', d_date = ''2025-12-22'', d_hour = Some 6,
              d_route_id = Some ''24'', d_stop_id = Some ''51234'', d_trip_id = None,
              avg_arrival_delay = Some 45, max_arrival_delay = Some 120,
              min_arrival_delay = Some (- 30), avg_departure_delay = None,
              max_departure_delay = None, min_departure_delay = None,
              trip_count = Some 3, route_count = Some 1, stop_count = Some 1\<rparr>]"
proof -
  let ?row = "\<lparr>d_provider_key = ''stm'', d_date = ''2025-12-22'', d_hour = Some 6,
              d_route_id = Some ''24'', d_stop_id = Some ''51234'', d_trip_id = None,
              avg_arrival_delay = Some 45, max_arrival_delay = Some 120,
              min_arrival_delay = Some (- 30), avg_departure_delay = None,
              max_departure_delay = None, min_departure_delay = None,
              trip_count = Some 3, route_count = Some 1, stop_count = Some 1\<rparr>"
  have q: "queryD1Historical aggregated_day (or_default None ''stm'')
           (or_default None ''gtfsrt_trip_updates'') ''2025-12-22''
           (if truthy (Some ''6'') then Hourly else Daily)
           (case Some ''6'' of None \<Rightarrow> None
            | Some h \<Rightarrow> if h = [] then None else Some (digit_parseInt h)) None None
         = Inr [DelayRow ?row]"
    by (simp add: queryD1Historical_def all_results_def never_aggregated_def aggregated_day_def
        or_default_def truthy_def digit_parseInt_def hour_matches_def text_matches_def)
  from historical_not_found_iff_no_rows
    [of "Some ''2025-12-22''" "''2025-12-22''" aggregated_day None None "Some ''6''"
        digit_parseInt None None "[DelayRow ?row]", OF _ _ q] q
  show ?thesis by (simp add: truthy_def or_default_def)
qed

theorem historical_not_found_counterexample:
  "fetch_historical digit_parseInt never_aggregated None None (Some ''2025-12-22'') (Some ''5'')
       None None
     = HistoricalError ''Historical data not found'' 404
   \<and> fetch_historical digit_parseInt aggregated_day None None (Some ''2025-12-22'') (Some ''5'')
       None None
     = HistoricalError ''Historical data not found'' 404
   \<and> fetch_historical digit_parseInt aggregated_day None None (Some ''2025-12-22'') (Some ''6'')
       None None
     = HistoricalData Hourly ''2025-12-22'' (Some ''6'') ''gtfsrt_trip_updates'' 1
         (map DelayRow (the (rt_delays_hourly aggregated_day)))"
  by (simp add: fetch_historical_def handleHistorical_def queryD1Historical_def all_results_def
      never_aggregated_def aggregated_day_def or_default_def truthy_def digit_parseInt_def
      hour_matches_def text_matches_def Let_def)


text \<open>
  Claim C9, as the code has it. The key of a stored snapshot is
  \<open>gtfs-rt/{sourceKey}/{feedKind}/dt={YYYY-MM-DD}/{feedKind}_{YYYY-MM-DD}T{HH-MM-SS}.pb\<close>,
  the blob is stored under it, and the date and the time are those of the civil time of
  \<open>America/Toronto\<close> at the instant of the save; no other clock or zone enters.
\<close>

theorem storage_key_format:
  assumes "saveRT sha pf e pkey fid kind ab = Some (Saved path, e')"
  shows "path = ''gtfs-rt/'' @ pkey @ ''/'' @ kind @ ''/dt='' @ local_date (toronto pf (now pf))
            @ ''/'' @ kind @ ''_'' @ local_date (toronto pf (now pf)) @ ''T''
            @ local_time (toronto pf (now pf)) @ ''.pb''
         \<and> R2 e' path = Some ab"
  using assms
  by (auto simp: saveRT_def Let_def fmtYMD_Montreal_Date fmtISO_Montreal_Date log_entry_def
      insert_raw_def split: if_splits bind_splits)

theorem storage_key_format_witness:
  "saveRT example_digest example_platform empty_env ''stm'' 7 ''gtfsrt_trip_updates'' [128]
     = Some (Saved example_path, example_saved_env)
   \<and> example_path = ''gtfs-rt/'' @ ''stm'' @ ''/'' @ ''gtfsrt_trip_updates'' @ ''/dt=''
        @ local_date (toronto example_platform (now example_platform))
        @ ''/'' @ ''gtfsrt_trip_updates'' @ ''_''
        @ local_date (toronto example_platform (now example_platform)) @ ''T''
        @ local_time (toronto example_platform (now example_platform)) @ ''.pb''
   \<and> R2 example_saved_env example_path = Some [128]"
  using storage_key_format [OF save_single_continuation] save_single_continuation by simp

theorem storage_key_counterexample:
  "map_option fst (saveRT example_digest example_platform empty_env ''stm'' 7
      ''gtfsrt_vehicle_positions'' [8, 1])
   = Some (Saved ''gtfs-rt/stm/gtfsrt_vehicle_positions/dt=2025-12-23/gtfsrt_vehicle_positions_2025-12-23T03-15-30.pb'')
   \<and> map_option fst (saveRT example_digest example_platform empty_env ''stm'' 7
      ''gtfsrt_vehicle_positions'' [8, 1])
   \<noteq> Some (Saved (claimed_key ''stm'' ''gtfsrt_vehicle_positions''
         (toronto example_platform (now example_platform))))"
  unfolding save_small_message
  by (simp add: claimed_key_def)

text \<open>
  Claim C10. Decoding does not return on every buffer. The ten bytes of \<open>hang_input\<close> are a
  header field (number 1, wire type 2) whose declared length is \<open>2^62\<close>: the loop of
  \<open>parseHeaderTimestamp\<close> runs past the end of the buffer, where every read is
  \<open>undefined\<close>, until the position reaches \<open>2^53\<close>, and there \<open>pos++\<close> no longer changes
  it. The model has the value \<open>None\<close> for a call that never returns.
\<close>

theorem parseFeedMeta_hangs: "parseFeedMeta hang_input = None"
proof -
  have k: "fieldNo_of (Fin 10) = 1" "wireType_of (Fin 10) = 2"
    by (simp_all add: fieldNo_of_def wireType_of_def toInt32_def)
  have l: "jslt (Fin 0) (Fin (length hang_input))" by (simp add: hang_input_def)
  have "length hang_input \<le> 10" by (simp add: hang_input_def)
  then have d: "parseHeaderTimestamp hang_input (Fin 10) (Fin 4611686018427387904) = None"
    by (rule parseHeaderTimestamp_diverges) simp_all
  show ?thesis
    unfolding parseFeedMeta_def
    by (subst parseFeedMeta_loop.simps)
       (simp add: l hang_key hang_len k subEnd_example d Let_def del: jslt.simps jsadd.simps)
qed

end
